theory Spec2Isabelle
  imports
    Complex_Main
    "HOL-Library.Multiset"
    "HOL-Library.Char_ord"
    "HOL-Library.List_Lexorder"
    "HOL-Library.Product_Lexorder"
begin

section \<open>Values held by a DataFrame\<close>

text \<open>
  HD.py is one Streamlit script over pandas DataFrames. A numeric cell is a float64:
  a finite number, one of the two infinities, or NaN (which pandas also uses for a
  missing value). Finite numbers are kept exact (rationals): rounding, overflow and
  the sign of zero are outside this model. A cell of an object column is a text or NaN.
\<close>

datatype f64 = Num rat | PosInf | NegInf | NaN

datatype cell = Flt f64 | Txt string

definition isna :: "cell \<Rightarrow> bool" where
  "isna c = (c = Flt NaN)"

text \<open>Addition of float64 values, as the running sum of an aggregation uses it.\<close>

fun fadd :: "f64 \<Rightarrow> f64 \<Rightarrow> f64" where
  "fadd NaN _ = NaN"
| "fadd _ NaN = NaN"
| "fadd (Num a) (Num b) = Num (a + b)"
| "fadd PosInf NegInf = NaN"
| "fadd NegInf PosInf = NaN"
| "fadd PosInf _ = PosInf"
| "fadd _ PosInf = PosInf"
| "fadd NegInf _ = NegInf"
| "fadd _ NegInf = NegInf"

text \<open>
  \<^verbatim>\<open>a / b\<close> on two numeric Series: pandas never raises on a zero divisor, it
  yields an infinity with the sign of the dividend, and NaN for \<^verbatim>\<open>0 / 0\<close>.
\<close>

fun fdiv :: "f64 \<Rightarrow> f64 \<Rightarrow> f64" where
  "fdiv NaN _ = NaN"
| "fdiv _ NaN = NaN"
| "fdiv (Num a) (Num b) =
     (if b \<noteq> 0 then Num (a / b)
      else if 0 < a then PosInf
      else if a < 0 then NegInf
      else NaN)"
| "fdiv (Num a) _ = Num 0"
| "fdiv PosInf (Num b) = (if b < 0 then NegInf else PosInf)"
| "fdiv NegInf (Num b) = (if b < 0 then PosInf else NegInf)"
| "fdiv _ _ = NaN"

text \<open>\<^verbatim>\<open>.fillna(0)\<close> and \<^verbatim>\<open>.replace([float("inf")], 0)\<close> on one value.\<close>

definition fillna0 :: "f64 \<Rightarrow> f64" where
  "fillna0 x = (if x = NaN then Num 0 else x)"

definition replace_inf0 :: "f64 \<Rightarrow> f64" where
  "replace_inf0 x = (if x = PosInf then Num 0 else x)"

text \<open>The order of float64 values that are not NaN.\<close>

fun f64_le :: "f64 \<Rightarrow> f64 \<Rightarrow> bool" where
  "f64_le NaN _ = False"
| "f64_le _ NaN = False"
| "f64_le NegInf _ = True"
| "f64_le _ PosInf = True"
| "f64_le (Num a) (Num b) = (a \<le> b)"
| "f64_le _ _ = False"

section \<open>Ingestion (lines 27-49)\<close>

text \<open>
  The exceptions the modelled lines raise. \<open>Failure\<close> carries the text of an exception
  that a library call outside HD.py raised (reading a file, the HTTP request).
\<close>

datatype exc =
  KeyError string | TypeError | ValueError | IndexError | AttributeError | Failure string

text \<open>
  An uploaded file: its name, and what the tokenizer of \<^verbatim>\<open>pd.read_csv(file, skiprows=2)\<close>
  makes of it: either the exception it raises, or the header line and the data lines that
  follow the two skipped lines, each split into fields. Column names are the ones
  \<^verbatim>\<open>read_csv\<close> assigns (it renames repeated headers).
\<close>

record csv_table =
  csv_header :: "string list"
  csv_rows :: "string list list"

record upload =
  file_name :: string
  read_result :: "string + csv_table"

text \<open>A DataFrame: its column labels, and its rows as lists of cells in column order.\<close>

record frame =
  columns :: "string list"
  records :: "cell list list"

text \<open>
  \<^verbatim>\<open>read_csv\<close> with its defaults (\<^verbatim>\<open>keep_default_na=True\<close>): a field that is empty, or
  one of the other default NA markers, becomes NaN; a line with fewer fields than the
  header is filled up with NaN. A column whose remaining fields all read as numbers
  becomes numeric, any other column keeps its fields as texts. \<open>parse\<close> stands for
  the numeric reader of pandas (NaN where a text is no number); it is a parameter of
  the model. The other column types that \<^verbatim>\<open>read_csv\<close> infers are outside this model:
  a column whose fields are all \<^verbatim>\<open>True\<close> or \<^verbatim>\<open>False\<close> is read by pandas as a boolean
  column, which \<^verbatim>\<open>to_numeric\<close> counts as 1 and 0, where the model holds the
  fields as texts and coerces them to 0.
\<close>

definition na_values :: "string list" where
  "na_values =
     ['''', ''#N/A'', ''#N/A N/A'', ''#NA'', ''-1.#IND'', ''-1.#QNAN'', ''-NaN'', ''-nan'',
      ''1.#IND'', ''1.#QNAN'', ''<NA>'', ''N/A'', ''NA'', ''NULL'', ''NaN'', ''None'',
      ''n/a'', ''nan'', ''null'']"

definition field_at :: "string list \<Rightarrow> nat \<Rightarrow> string" where
  "field_at r j = (if j < length r then r ! j else [])"

definition numeric_column :: "(string \<Rightarrow> f64) \<Rightarrow> csv_table \<Rightarrow> nat \<Rightarrow> bool" where
  "numeric_column parse t j =
     list_all (\<lambda>r. field_at r j \<in> set na_values \<or> parse (field_at r j) \<noteq> NaN) (csv_rows t)"

definition read_cell :: "(string \<Rightarrow> f64) \<Rightarrow> csv_table \<Rightarrow> nat \<Rightarrow> string \<Rightarrow> cell" where
  "read_cell parse t j f =
     (if f \<in> set na_values then Flt NaN
      else if numeric_column parse t j then Flt (parse f)
      else Txt f)"

definition read_csv :: "(string \<Rightarrow> f64) \<Rightarrow> csv_table \<Rightarrow> frame" where
  "read_csv parse t =
     \<lparr>columns = csv_header t,
      records = map (\<lambda>r. map (\<lambda>j. read_cell parse t j (field_at r j))
                               [0..<length (csv_header t)])
                    (csv_rows t)\<rparr>"

text \<open>Line 44, \<^verbatim>\<open>df["account"] = file.name\<close>: overwrites the column, or appends it.\<close>

definition set_account :: "string \<Rightarrow> frame \<Rightarrow> frame" where
  "set_account nm df =
     (if ''account'' \<in> set (columns df)
      then df\<lparr>records :=
                map (\<lambda>r. map (\<lambda>(n, c). if n = ''account'' then Txt nm else c)
                              (zip (columns df) r))
                    (records df)\<rparr>
      else \<lparr>columns = columns df @ [''account''],
            records = map (\<lambda>r. r @ [Txt nm]) (records df)\<rparr>)"

text \<open>
  Line 49, \<^verbatim>\<open>pd.concat(all_dfs, ignore_index=True)\<close>: the columns are the union of the
  frames' columns in the order of their first appearance; a frame that lacks a column
  has NaN there.
\<close>

definition first_seen :: "'a list \<Rightarrow> 'a list" where
  "first_seen xs = rev (remdups (rev xs))"

definition reindex :: "string list \<Rightarrow> frame \<Rightarrow> cell list list" where
  "reindex cols df =
     map (\<lambda>r. map (\<lambda>n. case map_of (zip (columns df) r) n of
                           None \<Rightarrow> Flt NaN
                         | Some c \<Rightarrow> c) cols)
         (records df)"

definition concat_frames :: "frame list \<Rightarrow> frame" where
  "concat_frames dfs =
     (let cols = first_seen (concat (map columns dfs))
      in \<lparr>columns = cols, records = concat (map (reindex cols) dfs)\<rparr>)"

text \<open>
  What the user is shown (\<^verbatim>\<open>st.warning\<close> of line 34, \<^verbatim>\<open>st.error\<close> of line 47), and
  how the script leaves the block: \<open>Stop\<close> is \<^verbatim>\<open>st.stop()\<close>, \<open>Raise\<close> an exception that
  nothing catches.
\<close>

datatype notice = Upload_prompt | Read_error string string

datatype halt = Stop | Raise exc

text \<open>Lines 40-47: the loop over the uploaded files, with its \<^verbatim>\<open>try\<close>/\<^verbatim>\<open>except\<close>.\<close>

fun read_all :: "(string \<Rightarrow> f64) \<Rightarrow> upload list \<Rightarrow> notice list \<times> frame list" where
  "read_all parse [] = ([], [])"
| "read_all parse (f # fs) =
     (case read_all parse fs of (ns, dfs) \<Rightarrow>
        (case read_result f of
           Inl e \<Rightarrow> (Read_error (file_name f) e # ns, dfs)
         | Inr t \<Rightarrow> (ns, set_account (file_name f) (read_csv parse t) # dfs)))"

text \<open>
  Lines 33-49. \<^verbatim>\<open>pd.concat\<close> raises ValueError ("No objects to concatenate") on an
  empty list, and line 49 stands outside every \<^verbatim>\<open>try\<close>.
\<close>

definition ingest :: "(string \<Rightarrow> f64) \<Rightarrow> upload list \<Rightarrow> notice list \<times> (halt + frame)" where
  "ingest parse uploaded_files =
     (if uploaded_files = [] then ([Upload_prompt], Inl Stop)
      else case read_all parse uploaded_files of (ns, all_dfs) \<Rightarrow>
        if all_dfs = [] then (ns, Inl (Raise ValueError))
        else (ns, Inr (concat_frames all_dfs)))"

section \<open>Normalization (lines 52-67)\<close>

definition renames :: "(string \<times> string) list" where
  "renames =
     [(''Search term'', ''search_term''),
      (''Keyword'', ''keyword''),
      (''Campaign'', ''campaign''),
      (''Ad group'', ''ad_group''),
      (''Impr.'', ''impressions''),
      (''Interactions'', ''clicks''),
      (''Cost'', ''cost''),
      (''Match type'', ''match_type'')]"

definition rename_label :: "string \<Rightarrow> string" where
  "rename_label n = (case map_of renames n of None \<Rightarrow> n | Some m \<Rightarrow> m)"

definition rename :: "frame \<Rightarrow> frame" where
  "rename df = df\<lparr>columns := map rename_label (columns df)\<rparr>"

text \<open>The positions of the columns with a given label (a label may repeat after renaming).\<close>

definition positions :: "string \<Rightarrow> frame \<Rightarrow> nat list" where
  "positions col df = filter (\<lambda>j. columns df ! j = col) [0..<length (columns df)]"

text \<open>
  Line 65, \<^verbatim>\<open>pd.to_numeric(df[col], errors="coerce").fillna(0)\<close> on one cell: a number
  stays, a text is read as a number and is NaN when that fails, and NaN becomes 0.
\<close>

definition to_numeric :: "(string \<Rightarrow> f64) \<Rightarrow> cell \<Rightarrow> f64" where
  "to_numeric parse c = (case c of Flt x \<Rightarrow> x | Txt s \<Rightarrow> parse s)"

definition coerce :: "(string \<Rightarrow> f64) \<Rightarrow> cell \<Rightarrow> cell" where
  "coerce parse c = Flt (fillna0 (to_numeric parse c))"

text \<open>
  \<^verbatim>\<open>df[col]\<close> raises KeyError when no column has the label; when several have it, it is
  a DataFrame, which \<^verbatim>\<open>to_numeric\<close> refuses with a TypeError.
\<close>

definition clean_column :: "(string \<Rightarrow> f64) \<Rightarrow> string \<Rightarrow> frame \<Rightarrow> exc + frame" where
  "clean_column parse col df =
     (case positions col df of
        [] \<Rightarrow> Inl (KeyError col)
      | [j] \<Rightarrow> Inr (df\<lparr>records := map (\<lambda>r. r[j := coerce parse (r ! j)]) (records df)\<rparr>)
      | _ \<Rightarrow> Inl TypeError)"

fun clean_numbers :: "(string \<Rightarrow> f64) \<Rightarrow> string list \<Rightarrow> frame \<Rightarrow> exc + frame" where
  "clean_numbers parse [] df = Inr df"
| "clean_numbers parse (col # cols) df =
     (case clean_column parse col df of
        Inl e \<Rightarrow> Inl e
      | Inr df' \<Rightarrow> clean_numbers parse cols df')"

text \<open>
  Line 67, \<^verbatim>\<open>df.dropna(subset=["search_term"])\<close>: KeyError when the label is absent;
  a row stays when none of the columns with that label is NaN in it.
\<close>

definition dropna_search_term :: "frame \<Rightarrow> exc + frame" where
  "dropna_search_term df =
     (case positions ''search_term'' df of
        [] \<Rightarrow> Inl (KeyError ''search_term'')
      | js \<Rightarrow> Inr (df\<lparr>records := filter (\<lambda>r. list_all (\<lambda>j. \<not> isna (r ! j)) js) (records df)\<rparr>))"

definition normalization :: "(string \<Rightarrow> f64) \<Rightarrow> frame \<Rightarrow> exc + frame" where
  "normalization parse df =
     (case clean_numbers parse [''impressions'', ''clicks'', ''cost''] (rename df) of
        Inl e \<Rightarrow> Inl e
      | Inr df' \<Rightarrow> dropna_search_term df')"

section \<open>Sorting and grouping\<close>

text \<open>
  Every \<^verbatim>\<open>sort_values\<close> call of HD.py leaves \<^verbatim>\<open>kind\<close> at its default, quicksort,
  which pandas documents as not stable. What the call guarantees is a rearrangement of
  the rows that is ordered by the sort column; which of several rows with equal keys
  comes first is decided by the sorting routine of the library, which is not part of
  HD.py. The model is therefore a relation that states this guarantee and no more:
  every result of the call satisfies it, so what is proved of all frames it admits
  holds of the frame the call returns; a frame it admits need not be one that the
  installed routine returns, and the order among equal keys is not settled here.
\<close>

definition sort_values :: "('a \<Rightarrow> 'a \<Rightarrow> bool) \<Rightarrow> 'a list \<Rightarrow> 'a list \<Rightarrow> bool" where
  "sort_values before xs ys \<longleftrightarrow> mset ys = mset xs \<and> sorted_wrt before ys"

text \<open>\<^verbatim>\<open>ascending=False\<close> on a float column; NaN keys go last (\<^verbatim>\<open>na_position\<close>).\<close>

definition desc_f64 :: "f64 \<Rightarrow> f64 \<Rightarrow> bool" where
  "desc_f64 x y \<longleftrightarrow> y = NaN \<or> (x \<noteq> NaN \<and> f64_le y x)"

text \<open>
  \<^verbatim>\<open>groupby(col)\<close>: rows with a NaN key belong to no group (\<^verbatim>\<open>dropna=True\<close>), and
  the groups come in the order of their keys (\<^verbatim>\<open>sort=True\<close>): numbers before texts,
  texts by code point.
\<close>

fun f64_key :: "f64 \<Rightarrow> nat \<times> rat" where
  "f64_key NegInf = (0, 0)"
| "f64_key (Num q) = (1, q)"
| "f64_key PosInf = (2, 0)"
| "f64_key NaN = (3, 0)"

fun cell_key :: "cell \<Rightarrow> nat \<times> (nat \<times> rat) \<times> string" where
  "cell_key (Flt x) = (0, f64_key x, [])"
| "cell_key (Txt s) = (1, (0, 0), s)"

definition group_keys :: "('r \<Rightarrow> cell) \<Rightarrow> 'r list \<Rightarrow> cell list" where
  "group_keys by rows = sort_key cell_key (remdups (filter (\<lambda>k. \<not> isna k) (map by rows)))"

definition group_rows :: "('r \<Rightarrow> cell) \<Rightarrow> cell \<Rightarrow> 'r list \<Rightarrow> 'r list" where
  "group_rows by k rows = filter (\<lambda>r. by r = k) rows"

text \<open>The aggregations \<^verbatim>\<open>"sum"\<close> (NaN skipped) and \<^verbatim>\<open>"nunique"\<close> (NaN not counted).\<close>

definition fsum :: "f64 list \<Rightarrow> f64" where
  "fsum xs = foldl fadd (Num 0) (filter (\<lambda>x. x \<noteq> NaN) xs)"

definition nunique :: "cell list \<Rightarrow> nat" where
  "nunique cs = length (remdups (filter (\<lambda>c. \<not> isna c) cs))"

section \<open>The filtered dataset and the Keyword Summary\<close>

text \<open>
  A row of \<^verbatim>\<open>filtered_df\<close>, with the columns the views below read. After the cleaning
  step the three numeric columns are float64.
\<close>

record row =
  search_term :: cell
  keyword :: cell
  impressions :: f64
  clicks :: f64
  cost :: f64

text \<open>Lines 88-96: \<^verbatim>\<open>groupby("keyword").agg(...).reset_index()\<close>.\<close>

record agg_row =
  s_keyword :: cell
  total_search_terms :: nat
  total_impressions :: f64
  total_clicks :: f64
  total_cost :: f64

definition keyword_groups :: "row list \<Rightarrow> agg_row list" where
  "keyword_groups rows =
     map (\<lambda>k. let g = group_rows keyword k rows in
            \<lparr>s_keyword = k,
             total_search_terms = nunique (map search_term g),
             total_impressions = fsum (map impressions g),
             total_clicks = fsum (map clicks g),
             total_cost = fsum (map cost g)\<rparr>)
         (group_keys keyword rows)"

text \<open>Lines 99-100: the two rate columns, added to the sorted frame.\<close>

record summary_row = agg_row +
  CTR :: f64
  CPC :: f64

definition with_rates :: "agg_row \<Rightarrow> summary_row" where
  "with_rates g =
     \<lparr>s_keyword = s_keyword g,
      total_search_terms = total_search_terms g,
      total_impressions = total_impressions g,
      total_clicks = total_clicks g,
      total_cost = total_cost g,
      CTR = fillna0 (fdiv (total_clicks g) (total_impressions g)),
      CPC = replace_inf0 (fdiv (total_cost g) (total_clicks g))\<rparr>"

text \<open>Lines 88-100: \<open>summary rows out\<close> holds when \<open>out\<close> is a frame the block may yield.\<close>

definition summary :: "row list \<Rightarrow> summary_row list \<Rightarrow> bool" where
  "summary rows out \<longleftrightarrow>
     (\<exists>s. sort_values (\<lambda>a b. total_search_terms b \<le> total_search_terms a)
            (keyword_groups rows) s
        \<and> out = map with_rates s)"

section \<open>Top Terms (lines 130-135) and Mapping (lines 198-202)\<close>

record term_row =
  t_search_term :: cell
  t_clicks :: f64
  t_impressions :: f64

definition term_groups :: "row list \<Rightarrow> term_row list" where
  "term_groups rows =
     map (\<lambda>k. let g = group_rows search_term k rows in
            \<lparr>t_search_term = k,
             t_clicks = fsum (map clicks g),
             t_impressions = fsum (map impressions g)\<rparr>)
         (group_keys search_term rows)"

text \<open>\<open>top_terms rows out\<close>: \<open>out\<close> is a frame that lines 130-135 may yield.\<close>

definition top_terms :: "row list \<Rightarrow> term_row list \<Rightarrow> bool" where
  "top_terms rows out \<longleftrightarrow>
     (\<exists>s. sort_values (\<lambda>a b. desc_f64 (t_clicks a) (t_clicks b)) (term_groups rows) s
        \<and> out = take 15 s)"

text \<open>
  The Mapping view projects the five columns of \<open>row\<close> and sorts; nothing is grouped
  and nothing is dropped.
\<close>

definition mapping :: "row list \<Rightarrow> row list \<Rightarrow> bool" where
  "mapping rows out \<longleftrightarrow> sort_values (\<lambda>a b. desc_f64 (clicks a) (clicks b)) rows out"

text \<open>
  The specification's reading of Top Terms, for comparison: a stable sort, which keeps
  groups with equal clicks in the order the grouping gave them. It is one of the frames
  that the relation admits; whether it is the frame that line 133 returns depends on
  the library's sorting routine.
\<close>

fun insert_desc :: "('a \<Rightarrow> f64) \<Rightarrow> 'a \<Rightarrow> 'a list \<Rightarrow> 'a list" where
  "insert_desc key x [] = [x]"
| "insert_desc key x (y # ys) =
     (if desc_f64 (key x) (key y) then x # y # ys else y # insert_desc key x ys)"

definition stable_sort_desc :: "('a \<Rightarrow> f64) \<Rightarrow> 'a list \<Rightarrow> 'a list" where
  "stable_sort_desc key xs = foldr (insert_desc key) xs []"

definition top_terms_stable :: "row list \<Rightarrow> term_row list" where
  "top_terms_stable rows = take 15 (stable_sort_desc t_clicks (term_groups rows))"

section \<open>Coverage Analyzer (lines 151-162)\<close>

text \<open>
  Texts are lists of bytes here, and \<^verbatim>\<open>lower\<close> and \<^verbatim>\<open>strip\<close> are modelled on ASCII:
  letters and white space outside ASCII are left as they are.
\<close>

definition lower_char :: "char \<Rightarrow> char" where
  "lower_char c =
     (if CHR ''A'' \<le> c \<and> c \<le> CHR ''Z'' then char_of (of_char c + (32 :: nat)) else c)"

definition str_lower :: "string \<Rightarrow> string" where
  "str_lower s = map lower_char s"

definition is_space :: "char \<Rightarrow> bool" where
  "is_space c \<longleftrightarrow>
     c \<in> set [CHR '' '', CHR 0x09, CHR 0x0A, CHR 0x0B, CHR 0x0C, CHR 0x0D,
              CHR 0x1C, CHR 0x1D, CHR 0x1E, CHR 0x1F]"

definition str_strip :: "string \<Rightarrow> string" where
  "str_strip s = rev (dropWhile is_space (rev (dropWhile is_space s)))"

text \<open>
  Lines 151-154, \<^verbatim>\<open>clean_kw\<close>. \<open>repr\<close> stands for Python's \<^verbatim>\<open>str\<close> of a number (the
  keyword column is numeric when every keyword reads as a number).
\<close>

definition clean_kw :: "(f64 \<Rightarrow> string) \<Rightarrow> cell \<Rightarrow> string" where
  "clean_kw repr text =
     (if isna text then []
      else str_lower (str_strip
             (filter (\<lambda>c. c \<notin> set [CHR ''['', CHR '']'', CHR 0x22])
                (case text of Txt s \<Rightarrow> s | Flt x \<Rightarrow> repr x))))"

text \<open>
  Line 156, \<^verbatim>\<open>.str.lower().str.strip()\<close>: an entry that is no text becomes NaN.
  The accessor itself raises AttributeError on a column that is not of object dtype,
  that is one with rows and without any text.
\<close>

definition search_term_clean :: "cell \<Rightarrow> cell" where
  "search_term_clean c = (case c of Txt s \<Rightarrow> Txt (str_strip (str_lower s)) | Flt x \<Rightarrow> Flt NaN)"

record coverage_sets =
  all_keywords :: "cell set"
  all_search_terms :: "cell set"
  uncovered_terms :: "cell set"

definition coverage :: "(f64 \<Rightarrow> string) \<Rightarrow> row list \<Rightarrow> exc + coverage_sets" where
  "coverage repr rows =
     (if rows \<noteq> [] \<and> list_all (\<lambda>r. case search_term r of Txt s \<Rightarrow> False | Flt x \<Rightarrow> True) rows
      then Inl AttributeError
      else
        let kws = set (map (\<lambda>r. Txt (clean_kw repr (keyword r))) rows) - {Txt []};
            terms = set (map (\<lambda>r. search_term_clean (search_term r)) rows)
        in Inr \<lparr>all_keywords = kws, all_search_terms = terms, uncovered_terms = terms - kws\<rparr>)"

section \<open>Insight Requester (lines 212-261)\<close>

text \<open>A decoded JSON document; an object is the list of its members, each key once.\<close>

datatype json =
  JNull | JBool bool | JNum rat | JStr string | JArr "json list" | JObj "(string \<times> json) list"

text \<open>Python's \<^verbatim>\<open>"choices" in result\<close>, \<^verbatim>\<open>x[key]\<close> and \<^verbatim>\<open>x[0]\<close> on a decoded document.\<close>

fun is_substr :: "string \<Rightarrow> string \<Rightarrow> bool" where
  "is_substr xs [] = (xs = [])"
| "is_substr xs (y # ys) = (take (length xs) (y # ys) = xs \<or> is_substr xs ys)"

fun contains :: "string \<Rightarrow> json \<Rightarrow> exc + bool" where
  "contains k (JObj kvs) = Inr (k \<in> set (map fst kvs))"
| "contains k (JArr xs) = Inr (JStr k \<in> set xs)"
| "contains k (JStr s) = Inr (is_substr k s)"
| "contains k _ = Inl TypeError"

fun subscript :: "json \<Rightarrow> string \<Rightarrow> exc + json" where
  "subscript (JObj kvs) k = (case map_of kvs k of None \<Rightarrow> Inl (KeyError k) | Some v \<Rightarrow> Inr v)"
| "subscript _ k = Inl TypeError"

fun subscript0 :: "json \<Rightarrow> exc + json" where
  "subscript0 (JArr []) = Inl IndexError"
| "subscript0 (JArr (x # xs)) = Inr x"
| "subscript0 (JStr []) = Inl IndexError"
| "subscript0 (JStr (c # cs)) = Inr (JStr [c])"
| "subscript0 (JObj kvs) = Inl (KeyError ''0'')"
| "subscript0 _ = Inl TypeError"

text \<open>
  What the handler meets outside HD.py: the secret store (line 229), the request
  (line 247) and the decoding of the body (line 253); each may raise.
\<close>

datatype reply = Post_raises exc | Json_raises exc | Json json

text \<open>
  What the handler shows: \<^verbatim>\<open>st.success(content)\<close> of line 256,
  \<^verbatim>\<open>st.error(f"AI response error: {result}")\<close> of line 258, or
  \<^verbatim>\<open>st.error(f"AI request failed: {e}")\<close> of line 261.
\<close>

datatype shown = Success json | Response_error json | Request_failed exc

text \<open>Lines 215-258, the body of the \<^verbatim>\<open>try\<close>.\<close>

definition request_insights :: "exc + string \<Rightarrow> reply \<Rightarrow> exc + shown" where
  "request_insights secret rep =
     (case secret of
        Inl e \<Rightarrow> Inl e
      | Inr api_key \<Rightarrow>
         (case rep of
            Post_raises e \<Rightarrow> Inl e
          | Json_raises e \<Rightarrow> Inl e
          | Json result \<Rightarrow>
             (case contains ''choices'' result of
                Inl e \<Rightarrow> Inl e
              | Inr False \<Rightarrow> Inr (Response_error result)
              | Inr True \<Rightarrow>
                 (case subscript result ''choices'' of
                    Inl e \<Rightarrow> Inl e
                  | Inr cs \<Rightarrow>
                     (case subscript0 cs of
                        Inl e \<Rightarrow> Inl e
                      | Inr c \<Rightarrow>
                         (case subscript c ''message'' of
                            Inl e \<Rightarrow> Inl e
                          | Inr m \<Rightarrow>
                             (case subscript m ''content'' of
                                Inl e \<Rightarrow> Inl e
                              | Inr content \<Rightarrow> Inr (Success content))))))))"

text \<open>Lines 214-261: \<^verbatim>\<open>except Exception as e\<close> catches whatever the body raises.\<close>

definition generate_insights :: "exc + string \<Rightarrow> reply \<Rightarrow> shown" where
  "generate_insights secret rep =
     (case request_insights secret rep of
        Inl e \<Rightarrow> Request_failed e
      | Inr s \<Rightarrow> s)"

section \<open>Auxiliary notions for the proofs\<close>

text \<open>A row holds a number that is not NaN at position \<open>j\<close> (if it reaches that far).\<close>

definition numeric_at :: "nat \<Rightarrow> cell list \<Rightarrow> bool" where
  "numeric_at j r \<longleftrightarrow> (j < length r \<longrightarrow> (\<exists>x. r ! j = Flt x \<and> x \<noteq> NaN))"

text \<open>
  What \<^verbatim>\<open>read_csv\<close> and \<^verbatim>\<open>concat\<close> establish: every row has one cell per column, and
  outside the \<^verbatim>\<open>account\<close> column (which holds file names) no cell is the empty text.
\<close>

definition well_read :: "frame \<Rightarrow> bool" where
  "well_read df \<longleftrightarrow>
     (\<forall>r\<in>set (records df). length r = length (columns df) \<and>
        (\<forall>j<length r. columns df ! j \<noteq> ''account'' \<longrightarrow> r ! j \<noteq> Txt []))"

text \<open>The row that the loop of lines 64-65 makes of a row, for the labels \<open>cols\<close>.\<close>

definition cleaned_row :: "(string \<Rightarrow> f64) \<Rightarrow> frame \<Rightarrow> string list \<Rightarrow> cell list \<Rightarrow> cell list" where
  "cleaned_row parse df cols r =
     map (\<lambda>i. if \<exists>c\<in>set cols. i \<in> set (positions c df) then coerce parse (r ! i) else r ! i)
         [0..<length r]"

section \<open>Properties of Normalization\<close>


lemma rename_label_idem: "rename_label (rename_label n) = rename_label n"
  by (auto simp: rename_label_def renames_def split: option.splits if_splits)

lemma rename_label_account: "rename_label n = ''account'' \<longleftrightarrow> n = ''account''"
  by (auto simp: rename_label_def renames_def split: option.splits if_splits)

lemma positions_columns: "columns df' = columns df \<Longrightarrow> positions col df' = positions col df"
  by (simp add: positions_def)

lemma positions_iff: "j \<in> set (positions col df) \<longleftrightarrow> j < length (columns df) \<and> columns df ! j = col"
  by (auto simp: positions_def)

lemma clean_column_Inr:
  "clean_column parse col df = Inr df' \<Longrightarrow>
     \<exists>j. positions col df = [j] \<and>
         df' = df\<lparr>records := map (\<lambda>r. r[j := coerce parse (r ! j)]) (records df)\<rparr>"
  by (auto simp: clean_column_def split: list.splits)

lemma clean_column_columns: "clean_column parse col df = Inr df' \<Longrightarrow> columns df' = columns df"
  by (auto dest: clean_column_Inr)

lemma clean_numbers_columns: "clean_numbers parse cols df = Inr df' \<Longrightarrow> columns df' = columns df"
  by (induction cols arbitrary: df) (auto split: sum.splits dest: clean_column_columns)

lemma coerce_numeric: "\<exists>x. coerce parse c = Flt x \<and> x \<noteq> NaN"
  by (simp add: coerce_def fillna0_def)

lemma numeric_at_update: "numeric_at j (r[j := coerce parse c])"
  using coerce_numeric[of parse c] by (auto simp: numeric_at_def)

lemma numeric_at_update_other: "numeric_at j r \<Longrightarrow> numeric_at j (r[i := coerce parse c])"
  using coerce_numeric[of parse c] by (cases "i = j") (auto simp: numeric_at_def)

lemma numeric_at_fix:
  assumes "numeric_at j r"
  shows "r[j := coerce parse (r ! j)] = r"
proof (cases "j < length r")
  case True
  with assms obtain x where x: "r ! j = Flt x" "x \<noteq> NaN" by (auto simp: numeric_at_def)
  then have "coerce parse (r ! j) = r ! j" by (simp add: coerce_def to_numeric_def fillna0_def)
  then show ?thesis by simp
next
  case False
  then show ?thesis by (simp add: list_update_beyond)
qed

lemma clean_column_keeps:
  "clean_column parse col df = Inr df' \<Longrightarrow> \<forall>r\<in>set (records df). numeric_at j r \<Longrightarrow>
     \<forall>r\<in>set (records df'). numeric_at j r"
  by (auto dest!: clean_column_Inr simp: numeric_at_update_other)

lemma clean_numbers_keeps:
  "clean_numbers parse cols df = Inr df' \<Longrightarrow> \<forall>r\<in>set (records df). numeric_at j r \<Longrightarrow>
     \<forall>r\<in>set (records df'). numeric_at j r"
proof (induction cols arbitrary: df)
  case Nil then show ?case by simp
next
  case (Cons c cols)
  then obtain df1 where 1: "clean_column parse c df = Inr df1" and 2: "clean_numbers parse cols df1 = Inr df'"
    by (auto split: sum.splits)
  from clean_column_keeps[OF 1 Cons.prems(2)] Cons.IH[OF 2] show ?case by blast
qed

lemma clean_numbers_numeric:
  "clean_numbers parse cols df = Inr df' \<Longrightarrow> col \<in> set cols \<Longrightarrow>
     \<exists>j. positions col df = [j] \<and> (\<forall>r\<in>set (records df'). numeric_at j r)"
proof (induction cols arbitrary: df)
  case Nil then show ?case by simp
next
  case (Cons c cols)
  then obtain df1 where 1: "clean_column parse c df = Inr df1" and 2: "clean_numbers parse cols df1 = Inr df'"
    by (auto split: sum.splits)
  from clean_column_Inr[OF 1] obtain j where j: "positions c df = [j]"
    and df1: "df1 = df\<lparr>records := map (\<lambda>r. r[j := coerce parse (r ! j)]) (records df)\<rparr>" by blast
  show ?case
  proof (cases "col = c")
    case True
    have "\<forall>r\<in>set (records df1). numeric_at j r" by (auto simp: df1 numeric_at_update)
    from clean_numbers_keeps[OF 2 this] j True show ?thesis by blast
  next
    case False
    with Cons.prems have "col \<in> set cols" by simp
    from Cons.IH[OF 2 this] obtain i where "positions col df1 = [i]" "\<forall>r\<in>set (records df'). numeric_at i r" by blast
    moreover have "positions col df1 = positions col df" by (simp add: df1 positions_def)
    ultimately show ?thesis by auto
  qed
qed

lemma clean_numbers_fix:
  "\<forall>col\<in>set cols. \<exists>j. positions col df = [j] \<and> (\<forall>r\<in>set (records df). numeric_at j r) \<Longrightarrow>
   clean_numbers parse cols df = Inr df"
proof (induction cols)
  case Nil then show ?case by simp
next
  case (Cons c cols)
  then obtain j where j: "positions c df = [j]" and n: "\<forall>r\<in>set (records df). numeric_at j r" by auto
  have "map (\<lambda>r. r[j := coerce parse (r ! j)]) (records df) = records df"
    using n by (intro map_idI) (simp add: numeric_at_fix)
  then have "clean_column parse c df = Inr df" by (simp add: clean_column_def j)
  with Cons show ?case by simp
qed

lemma dropna_Inr:
  "dropna_search_term df = Inr df' \<Longrightarrow>
     positions ''search_term'' df \<noteq> [] \<and>
     df' = df\<lparr>records := filter (\<lambda>r. list_all (\<lambda>j. \<not> isna (r ! j)) (positions ''search_term'' df)) (records df)\<rparr>"
  by (auto simp: dropna_search_term_def split: list.splits)

lemma dropna_nonempty:
  "positions ''search_term'' df \<noteq> [] \<Longrightarrow>
   dropna_search_term df =
     Inr (df\<lparr>records := filter (\<lambda>r. list_all (\<lambda>j. \<not> isna (r ! j)) (positions ''search_term'' df)) (records df)\<rparr>)"
  by (cases "positions ''search_term'' df") (simp_all add: dropna_search_term_def)

lemma normalization_Inr:
  "normalization parse df = Inr df' \<Longrightarrow>
     \<exists>df1. clean_numbers parse [''impressions'', ''clicks'', ''cost''] (rename df) = Inr df1 \<and>
           dropna_search_term df1 = Inr df'"
  by (auto simp: normalization_def split: sum.splits)

lemma rename_fix: "columns df' = map rename_label (columns df) \<Longrightarrow> rename df' = df'"
  by (simp add: rename_def rename_label_idem)

text \<open>
  Claim C9. Normalization is idempotent: whenever it succeeds on a frame, running it
  again on its result succeeds and returns that result unchanged.
\<close>

theorem C9_normalization_idempotent:
  assumes "normalization parse df = Inr df'"
  shows "normalization parse df' = Inr df'"
proof -
  let ?cols = "[''impressions'', ''clicks'', ''cost'']"
  from normalization_Inr[OF assms] obtain df1 where
    1: "clean_numbers parse ?cols (rename df) = Inr df1" and 2: "dropna_search_term df1 = Inr df'" by blast
  from dropna_Inr[OF 2] have ne: "positions ''search_term'' df1 \<noteq> []"
    and df': "df' = df1\<lparr>records := filter (\<lambda>r. list_all (\<lambda>j. \<not> isna (r ! j)) (positions ''search_term'' df1)) (records df1)\<rparr>"
    by blast+
  have c1: "columns df1 = columns (rename df)" using 1 by (rule clean_numbers_columns)
  have c': "columns df' = columns df1" by (subst df') simp
  have ren: "rename df' = df'" by (rule rename_fix) (simp add: c' c1 rename_def)
  have sub: "set (records df') \<subseteq> set (records df1)" by (subst df') auto
  have "\<forall>col\<in>set ?cols. \<exists>j. positions col df' = [j] \<and> (\<forall>r\<in>set (records df'). numeric_at j r)"
  proof
    fix col assume "col \<in> set ?cols"
    from clean_numbers_numeric[OF 1 this] obtain j where
      "positions col (rename df) = [j]" "\<forall>r\<in>set (records df1). numeric_at j r" by blast
    moreover have "positions col df' = positions col (rename df)" by (simp add: positions_def c' c1)
    ultimately show "\<exists>j. positions col df' = [j] \<and> (\<forall>r\<in>set (records df'). numeric_at j r)"
      using sub by auto
  qed
  then have cl: "clean_numbers parse ?cols df' = Inr df'" by (rule clean_numbers_fix)
  have p: "positions ''search_term'' df' = positions ''search_term'' df1" by (simp add: positions_def c')
  let ?P = "\<lambda>r. list_all (\<lambda>j. \<not> isna (r ! j)) (positions ''search_term'' df1)"
  have r': "records df' = filter ?P (records df1)" by (subst df') simp
  have "filter ?P (records df') = records df'" by (simp add: r')
  then have "df'\<lparr>records := filter ?P (records df')\<rparr> = df'" by simp
  then have "dropna_search_term df' = Inr df'"
    using ne dropna_nonempty[of df'] by (simp add: p)
  with cl ren show ?thesis by (simp add: normalization_def)
qed

theorem C9_witness:
  "normalization (\<lambda>s. NaN)
     \<lparr>columns = [''Search term'', ''Keyword'', ''Impr.'', ''Interactions'', ''Cost''],
      records = [[Txt ''buy shoes'', Txt ''[shoes]'', Txt ''1,234'', Flt (Num 10), Flt (Num 5)],
                 [Flt NaN, Txt ''boots'', Flt (Num 7), Flt NaN, Flt (Num 0)]]\<rparr>
     = Inr \<lparr>columns = [''search_term'', ''keyword'', ''impressions'', ''clicks'', ''cost''],
            records = [[Txt ''buy shoes'', Txt ''[shoes]'', Flt (Num 0), Flt (Num 10), Flt (Num 5)]]\<rparr>
   \<and> normalization (\<lambda>s. NaN)
     \<lparr>columns = [''search_term'', ''keyword'', ''impressions'', ''clicks'', ''cost''],
      records = [[Txt ''buy shoes'', Txt ''[shoes]'', Flt (Num 0), Flt (Num 10), Flt (Num 5)]]\<rparr>
     = Inr \<lparr>columns = [''search_term'', ''keyword'', ''impressions'', ''clicks'', ''cost''],
            records = [[Txt ''buy shoes'', Txt ''[shoes]'', Flt (Num 0), Flt (Num 10), Flt (Num 5)]]\<rparr>"
  (is "?A \<and> ?B")
proof -
  have h: ?A by code_simp
  show ?thesis by (rule conjI[OF h C9_normalization_idempotent[OF h]])
qed

subsection \<open>What the cleaned cells hold\<close>

lemma coerce_idem: "coerce parse (coerce parse c) = coerce parse c"
  by (simp add: coerce_def to_numeric_def fillna0_def)

lemma cleaned_row_Nil: "cleaned_row parse df [] r = r"
  by (simp add: cleaned_row_def map_nth)

lemma cleaned_row_step:
  assumes "positions c df = [j]" and "columns df1 = columns df"
  shows "cleaned_row parse df1 cols (r[j := coerce parse (r ! j)]) = cleaned_row parse df (c # cols) r"
proof (rule nth_equalityI)
  show "length (cleaned_row parse df1 cols (r[j := coerce parse (r ! j)])) =
        length (cleaned_row parse df (c # cols) r)"
    by (simp add: cleaned_row_def)
next
  fix i assume "i < length (cleaned_row parse df1 cols (r[j := coerce parse (r ! j)]))"
  then have i: "i < length r" by (simp add: cleaned_row_def)
  have p: "\<And>c'. positions c' df1 = positions c' df" using assms(2) by (simp add: positions_def)
  show "cleaned_row parse df1 cols (r[j := coerce parse (r ! j)]) ! i =
        cleaned_row parse df (c # cols) r ! i"
  proof (cases "i = j")
    case True
    with i show ?thesis by (simp add: cleaned_row_def p assms(1) coerce_idem)
  next
    case False
    with i show ?thesis by (simp add: cleaned_row_def p assms(1))
  qed
qed

lemma clean_numbers_records:
  "clean_numbers parse cols df = Inr df' \<Longrightarrow>
     records df' = map (cleaned_row parse df cols) (records df)"
proof (induction cols arbitrary: df)
  case Nil
  then show ?case by (simp add: cleaned_row_Nil)
next
  case (Cons c cols)
  then obtain df1 where 1: "clean_column parse c df = Inr df1"
    and 2: "clean_numbers parse cols df1 = Inr df'"
    by (auto split: sum.splits)
  from clean_column_Inr[OF 1] obtain j where j: "positions c df = [j]"
    and df1: "df1 = df\<lparr>records := map (\<lambda>r. r[j := coerce parse (r ! j)]) (records df)\<rparr>"
    by blast
  have c: "columns df1 = columns df" by (simp add: df1)
  have "records df' = map (cleaned_row parse df1 cols) (records df1)" by (rule Cons.IH[OF 2])
  also have "\<dots> = map (\<lambda>r. cleaned_row parse df1 cols (r[j := coerce parse (r ! j)])) (records df)"
    by (simp add: df1 comp_def)
  also have "\<dots> = map (cleaned_row parse df (c # cols)) (records df)"
    by (simp add: cleaned_row_step[OF j c])
  finally show ?case .
qed

lemma cleaned_row_explicit:
  "cleaned_row parse df cols r0 =
     map (\<lambda>i. if i < length (columns df) \<and> columns df ! i \<in> set cols
               then (case r0 ! i of
                       Flt x \<Rightarrow> if x = NaN then Flt (Num 0) else Flt x
                     | Txt s \<Rightarrow> if parse s = NaN then Flt (Num 0) else Flt (parse s))
               else r0 ! i)
         [0..<length r0]"
  unfolding cleaned_row_def
  by (rule map_cong)
     (auto simp: positions_iff coerce_def to_numeric_def fillna0_def split: cell.splits)

lemma kept_rows_explicit:
  "list_all (\<lambda>j. \<not> isna (r ! j)) (positions ''search_term'' df)
   \<longleftrightarrow> (\<forall>j<length (columns df). columns df ! j = ''search_term'' \<longrightarrow> \<not> isna (r ! j))"
  by (auto simp: list_all_iff positions_iff)

text \<open>
  Claim C4, as amended. Normalization works row by row: the frame it gives has the
  renamed columns, and its rows are the rows of the input, in their order, each with the
  cells of impressions, clicks and cost replaced by the number that the cell held or
  read as, or by 0 where the cell was null or did not read as a number, and with the
  other cells as they were; of these rows the ones with a null search term are left out.
  So the three numeric cells of every row are never null. The number of a cell is kept
  as it is; nothing makes it non-negative.
\<close>

theorem C4_numeric_fields_never_null:
  assumes "normalization parse df = Inr df'"
  shows "columns df' = map rename_label (columns df)
       \<and> records df' =
           filter (\<lambda>r. \<forall>j<length (columns df'). columns df' ! j = ''search_term'' \<longrightarrow> \<not> isna (r ! j))
             (map (\<lambda>r0. map (\<lambda>i. if i < length (columns df')
                                    \<and> columns df' ! i \<in> {''impressions'', ''clicks'', ''cost''}
                                 then (case r0 ! i of
                                         Flt x \<Rightarrow> if x = NaN then Flt (Num 0) else Flt x
                                       | Txt s \<Rightarrow> if parse s = NaN then Flt (Num 0)
                                                  else Flt (parse s))
                                 else r0 ! i)
                             [0..<length r0])
                  (records df))
       \<and> (\<forall>r\<in>set (records df'). \<forall>j<length r.
             j < length (columns df') \<longrightarrow>
             columns df' ! j \<in> {''impressions'', ''clicks'', ''cost''} \<longrightarrow>
             (\<exists>x. r ! j = Flt x \<and> x \<noteq> NaN))"
proof -
  let ?cols = "[''impressions'', ''clicks'', ''cost'']"
  let ?cell = "\<lambda>c. case c of
                  Flt x \<Rightarrow> if x = NaN then Flt (Num 0) else Flt x
                | Txt s \<Rightarrow> if parse s = NaN then Flt (Num 0) else Flt (parse s)"
  let ?row = "\<lambda>r0. map (\<lambda>i. if i < length (columns df')
                                \<and> columns df' ! i \<in> {''impressions'', ''clicks'', ''cost''}
                             then ?cell (r0 ! i) else r0 ! i)
                         [0..<length r0]"
  let ?keep = "\<lambda>r. \<forall>j<length (columns df'). columns df' ! j = ''search_term'' \<longrightarrow> \<not> isna (r ! j)"
  from normalization_Inr[OF assms] obtain df1 where
    1: "clean_numbers parse ?cols (rename df) = Inr df1" and 2: "dropna_search_term df1 = Inr df'"
    by blast
  from dropna_Inr[OF 2] have df':
    "df' = df1\<lparr>records := filter (\<lambda>r. list_all (\<lambda>j. \<not> isna (r ! j)) (positions ''search_term'' df1))
                                 (records df1)\<rparr>"
    by blast
  have c': "columns df' = columns df1" by (subst df') simp
  have c1: "columns df1 = columns (rename df)" using 1 by (rule clean_numbers_columns)
  have cols: "columns df' = map rename_label (columns df)" by (simp add: c' c1 rename_def)
  have "records df1 = map (cleaned_row parse (rename df) ?cols) (records (rename df))"
    using 1 by (rule clean_numbers_records)
  also have "cleaned_row parse (rename df) ?cols = ?row"
    by (rule ext) (simp add: cleaned_row_explicit c1[symmetric] c'[symmetric])
  finally have r1: "records df1 = map ?row (records df)" by (simp add: rename_def)
  have "records df' = filter (\<lambda>r. list_all (\<lambda>j. \<not> isna (r ! j)) (positions ''search_term'' df1))
                        (records df1)"
    by (subst df') simp
  also have "(\<lambda>r. list_all (\<lambda>j. \<not> isna (r ! j)) (positions ''search_term'' df1)) = ?keep"
    by (rule ext) (simp add: kept_rows_explicit c')
  finally have recs: "records df' = filter ?keep (map ?row (records df))" by (simp add: r1)
  have num: "\<forall>r\<in>set (records df'). \<forall>j<length r.
             j < length (columns df') \<longrightarrow>
             columns df' ! j \<in> {''impressions'', ''clicks'', ''cost''} \<longrightarrow>
             (\<exists>x. r ! j = Flt x \<and> x \<noteq> NaN)"
  proof (intro ballI allI impI)
    fix r j
    assume r: "r \<in> set (records df')" and j: "j < length r" "j < length (columns df')"
      and c: "columns df' ! j \<in> {''impressions'', ''clicks'', ''cost''}"
    from r recs obtain r0 where r0: "r = ?row r0" by auto
    with j(1) have "j < length r0" by simp
    with r0 j(2) c have "r ! j = ?cell (r0 ! j)" by simp
    then show "\<exists>x. r ! j = Flt x \<and> x \<noteq> NaN" by (auto split: cell.splits if_splits)
  qed
  from cols recs num show ?thesis by blast
qed

theorem C4_witness:
  "normalization (\<lambda>s. NaN)
     \<lparr>columns = [''Search term'', ''Keyword'', ''Impr.'', ''Interactions'', ''Cost''],
      records = [[Txt ''buy shoes'', Txt ''[shoes]'', Txt ''1,234'', Flt (Num 10), Flt (Num (- 5))],
                 [Flt NaN, Txt ''boots'', Flt (Num 7), Flt NaN, Flt (Num 0)],
                 [Txt ''cheap boots'', Flt NaN, Flt (Num 7), Flt NaN, Flt (Num 3)]]\<rparr>
     = Inr \<lparr>columns = [''search_term'', ''keyword'', ''impressions'', ''clicks'', ''cost''],
            records = [[Txt ''buy shoes'', Txt ''[shoes]'', Flt (Num 0), Flt (Num 10), Flt (Num (- 5))],
                       [Txt ''cheap boots'', Flt NaN, Flt (Num 7), Flt (Num 0), Flt (Num 3)]]\<rparr>
   \<and> [''search_term'', ''keyword'', ''impressions'', ''clicks'', ''cost'']
       = map rename_label [''Search term'', ''Keyword'', ''Impr.'', ''Interactions'', ''Cost'']
   \<and> [[Txt ''buy shoes'', Txt ''[shoes]'', Flt (Num 0), Flt (Num 10), Flt (Num (- 5))],
       [Txt ''cheap boots'', Flt NaN, Flt (Num 7), Flt (Num 0), Flt (Num 3)]]
       = filter (\<lambda>r. \<forall>j<length [''search_term'', ''keyword'', ''impressions'', ''clicks'', ''cost''].
                        [''search_term'', ''keyword'', ''impressions'', ''clicks'', ''cost''] ! j = ''search_term''
                        \<longrightarrow> \<not> isna (r ! j))
           (map (\<lambda>r0. map (\<lambda>i. if i < length [''search_term'', ''keyword'', ''impressions'', ''clicks'', ''cost'']
                                  \<and> [''search_term'', ''keyword'', ''impressions'', ''clicks'', ''cost''] ! i
                                      \<in> {''impressions'', ''clicks'', ''cost''}
                               then (case r0 ! i of
                                       Flt x \<Rightarrow> if x = NaN then Flt (Num 0) else Flt x
                                     | Txt s \<Rightarrow> if (\<lambda>s. NaN) s = NaN then Flt (Num 0)
                                                else Flt ((\<lambda>s. NaN) s))
                               else r0 ! i)
                           [0..<length r0])
                [[Txt ''buy shoes'', Txt ''[shoes]'', Txt ''1,234'', Flt (Num 10), Flt (Num (- 5))],
                 [Flt NaN, Txt ''boots'', Flt (Num 7), Flt NaN, Flt (Num 0)],
                 [Txt ''cheap boots'', Flt NaN, Flt (Num 7), Flt NaN, Flt (Num 3)]])
   \<and> (\<exists>x. [Txt ''buy shoes'', Txt ''[shoes]'', Flt (Num 0), Flt (Num 10), Flt (Num (- 5))] ! 2 = Flt x
          \<and> x \<noteq> NaN)"
  (is "?A \<and> ?B \<and> ?C \<and> ?D")
proof -
  have h: ?A by code_simp
  note t = C4_numeric_fields_never_null[OF h]
  have b: ?B using t[THEN conjunct1] by (simp only: frame.simps)
  have c: ?C using t[THEN conjunct2, THEN conjunct1] by (simp only: frame.simps)
  have d: ?D
    using t[THEN conjunct2, THEN conjunct2, THEN bspec,
            of "[Txt ''buy shoes'', Txt ''[shoes]'', Flt (Num 0), Flt (Num 10), Flt (Num (- 5))]",
            THEN spec, of 2]
    by simp
  from h b c d show ?thesis by blast
qed

text \<open>
  The claim as stated also bounds the three fields from below by 0. That fails: a cost
  cell that holds \<open>-5\<close> is a number, so line 65 leaves it as it is.
\<close>

theorem C4_counterexample:
  "normalization (\<lambda>s. NaN)
     \<lparr>columns = [''Search term'', ''Keyword'', ''Impr.'', ''Interactions'', ''Cost''],
      records = [[Txt ''refund shoes'', Txt ''shoes'', Flt (Num 10), Flt (Num 1), Flt (Num (- 5))]]\<rparr>
     = Inr \<lparr>columns = [''search_term'', ''keyword'', ''impressions'', ''clicks'', ''cost''],
            records = [[Txt ''refund shoes'', Txt ''shoes'', Flt (Num 10), Flt (Num 1), Flt (Num (- 5))]]\<rparr>
   \<and> \<not> f64_le (Num 0) (Num (- 5))"
  by code_simp

subsection \<open>Search terms after Ingestion and Normalization\<close>

lemma read_cell_not_empty: "read_cell parse t j f \<noteq> Txt []"
  by (simp add: read_cell_def na_values_def)

lemma well_read_read_csv: "well_read (read_csv parse t)"
  by (auto simp: well_read_def read_csv_def read_cell_not_empty)

lemma well_read_set_account:
  assumes "well_read df"
  shows "well_read (set_account nm df)"
proof (cases "''account'' \<in> set (columns df)")
  case True
  with assms show ?thesis
    by (auto simp: well_read_def set_account_def)
next
  case False
  with assms show ?thesis
    by (auto simp: well_read_def set_account_def nth_append)
qed

lemma well_read_reindex:
  assumes "well_read df" and "r \<in> set (reindex cols df)"
  shows "length r = length cols \<and> (\<forall>j<length r. cols ! j \<noteq> ''account'' \<longrightarrow> r ! j \<noteq> Txt [])"
proof -
  from assms(2) obtain r0 where r0: "r0 \<in> set (records df)"
    and r: "r = map (\<lambda>n. case map_of (zip (columns df) r0) n of None \<Rightarrow> Flt NaN | Some c \<Rightarrow> c) cols"
    by (auto simp: reindex_def)
  have "r ! j \<noteq> Txt []" if j: "j < length cols" and a: "cols ! j \<noteq> ''account''" for j
  proof (cases "map_of (zip (columns df) r0) (cols ! j)")
    case None
    with j show ?thesis by (simp add: r)
  next
    case (Some c)
    then have "(cols ! j, c) \<in> set (zip (columns df) r0)" by (rule map_of_SomeD)
    then obtain i where "i < length r0" "columns df ! i = cols ! j" "r0 ! i = c"
      by (auto simp: in_set_zip)
    with assms(1) r0 a have "c \<noteq> Txt []" by (auto simp: well_read_def)
    with Some j show ?thesis by (simp add: r)
  qed
  then show ?thesis by (simp add: r)
qed

lemma well_read_concat:
  assumes "\<forall>df\<in>set dfs. well_read df"
  shows "well_read (concat_frames dfs)"
  unfolding well_read_def concat_frames_def Let_def
  using assms well_read_reindex by (auto simp del: set_concat simp: set_concat)

lemma well_read_read_all: "df \<in> set (snd (read_all parse fs)) \<Longrightarrow> well_read df"
  by (induction fs arbitrary: df)
     (auto split: prod.splits sum.splits simp: well_read_set_account well_read_read_csv)

lemma well_read_ingest:
  assumes "ingest parse fs = (ns, Inr df)"
  shows "well_read df"
proof -
  obtain ns' dfs where ra: "read_all parse fs = (ns', dfs)" by (cases "read_all parse fs")
  with assms have df: "df = concat_frames dfs"
    by (auto simp: ingest_def split: if_splits)
  have "\<forall>d\<in>set dfs. well_read d" using well_read_read_all[of _ parse fs] by (simp add: ra)
  then show ?thesis unfolding df by (rule well_read_concat)
qed

lemma well_read_rename: "well_read df \<Longrightarrow> well_read (rename df)"
  by (auto simp: well_read_def rename_def rename_label_account)

lemma coerce_not_empty: "coerce parse c \<noteq> Txt []"
  by (simp add: coerce_def)

lemma update_not_empty:
  "i < length r \<Longrightarrow> r ! i \<noteq> Txt [] \<Longrightarrow> r[j := coerce parse c] ! i \<noteq> Txt []"
  by (cases "i = j") (simp_all add: coerce_not_empty)

lemma well_read_clean_column:
  "clean_column parse col df = Inr df' \<Longrightarrow> well_read df \<Longrightarrow> well_read df'"
  by (auto dest!: clean_column_Inr simp: well_read_def update_not_empty)

lemma well_read_clean_numbers:
  "clean_numbers parse cols df = Inr df' \<Longrightarrow> well_read df \<Longrightarrow> well_read df'"
  by (induction cols arbitrary: df) (auto split: sum.splits dest: well_read_clean_column)

text \<open>
  Claim C3. Whatever files are uploaded, in the frame that Ingestion and Normalization
  give, every row has a search term that is neither null nor the empty text: an empty
  field is read as NaN (\<open>read_cell\<close>), and line 67 drops the rows whose search term is
  NaN.
\<close>

theorem C3_search_term_present:
  assumes "ingest parse uploaded_files = (ns, Inr df)"
    and "normalization parse df = Inr df'"
    and "r \<in> set (records df')"
    and "j < length (columns df')" and "columns df' ! j = ''search_term''"
  shows "j < length r \<and> r ! j \<noteq> Flt NaN \<and> r ! j \<noteq> Txt []"
proof -
  from normalization_Inr[OF assms(2)] obtain df1 where
    1: "clean_numbers parse [''impressions'', ''clicks'', ''cost''] (rename df) = Inr df1"
    and 2: "dropna_search_term df1 = Inr df'"
    by blast
  from dropna_Inr[OF 2] have df':
    "df' = df1\<lparr>records := filter (\<lambda>r. list_all (\<lambda>j. \<not> isna (r ! j)) (positions ''search_term'' df1))
                                 (records df1)\<rparr>"
    by blast
  have c': "columns df' = columns df1" by (subst df') simp
  have r1: "r \<in> set (records df1)"
    and keep: "list_all (\<lambda>j. \<not> isna (r ! j)) (positions ''search_term'' df1)"
    using assms(3) by (subst (asm) df', simp)+
  have "well_read df1"
    using 1 well_read_rename[OF well_read_ingest[OF assms(1)]] by (rule well_read_clean_numbers)
  with r1 have len: "length r = length (columns df1)"
    and nonempty: "\<forall>j<length r. columns df1 ! j \<noteq> ''account'' \<longrightarrow> r ! j \<noteq> Txt []"
    by (auto simp: well_read_def)
  have "j \<in> set (positions ''search_term'' df1)" using assms(4,5) by (simp add: positions_iff c')
  with keep have "\<not> isna (r ! j)" by (simp add: list_all_iff)
  moreover have "j < length r" using assms(4) by (simp add: len c')
  moreover have "r ! j \<noteq> Txt []" using nonempty assms(4,5) by (simp add: len c')
  ultimately show ?thesis by (simp add: isna_def)
qed

theorem C3_witness:
  "ingest (\<lambda>s. if s = ''100'' then Num 100 else if s = ''10'' then Num 10
               else if s = ''5.00'' then Num 5 else if s = ''7'' then Num 7
               else if s = ''0'' then Num 0 else NaN)
       [\<lparr>file_name = ''a.csv'',
         read_result = Inr \<lparr>csv_header = [''Search term'', ''Keyword'', ''Impr.'', ''Interactions'', ''Cost''],
                            csv_rows = [[''buy shoes'', ''[shoes]'', ''100'', ''10'', ''5.00''],
                                        ['''', ''boots'', ''7'', ''0'', ''0'']]\<rparr>\<rparr>,
        \<lparr>file_name = ''b.csv'', read_result = Inl ''No columns to parse from file''\<rparr>]
     = ([Read_error ''b.csv'' ''No columns to parse from file''],
        Inr \<lparr>columns = [''Search term'', ''Keyword'', ''Impr.'', ''Interactions'', ''Cost'', ''account''],
             records =
               [[Txt ''buy shoes'', Txt ''[shoes]'', Flt (Num 100), Flt (Num 10), Flt (Num 5), Txt ''a.csv''],
                [Flt NaN, Txt ''boots'', Flt (Num 7), Flt (Num 0), Flt (Num 0), Txt ''a.csv'']]\<rparr>)
   \<and> normalization (\<lambda>s. if s = ''100'' then Num 100 else if s = ''10'' then Num 10
               else if s = ''5.00'' then Num 5 else if s = ''7'' then Num 7
               else if s = ''0'' then Num 0 else NaN)
       \<lparr>columns = [''Search term'', ''Keyword'', ''Impr.'', ''Interactions'', ''Cost'', ''account''],
        records =
          [[Txt ''buy shoes'', Txt ''[shoes]'', Flt (Num 100), Flt (Num 10), Flt (Num 5), Txt ''a.csv''],
           [Flt NaN, Txt ''boots'', Flt (Num 7), Flt (Num 0), Flt (Num 0), Txt ''a.csv'']]\<rparr>
     = Inr \<lparr>columns = [''search_term'', ''keyword'', ''impressions'', ''clicks'', ''cost'', ''account''],
            records =
              [[Txt ''buy shoes'', Txt ''[shoes]'', Flt (Num 100), Flt (Num 10), Flt (Num 5), Txt ''a.csv'']]\<rparr>
   \<and> (0 < length [Txt ''buy shoes'', Txt ''[shoes]'', Flt (Num 100), Flt (Num 10), Flt (Num 5), Txt ''a.csv'']
      \<and> [Txt ''buy shoes'', Txt ''[shoes]'', Flt (Num 100), Flt (Num 10), Flt (Num 5), Txt ''a.csv''] ! 0
          \<noteq> Flt NaN
      \<and> [Txt ''buy shoes'', Txt ''[shoes]'', Flt (Num 100), Flt (Num 10), Flt (Num 5), Txt ''a.csv''] ! 0
          \<noteq> Txt [])"
  (is "?A \<and> ?B \<and> ?C")
proof -
  have a: ?A by code_simp
  have b: ?B by code_simp
  have ?C
    by (rule C3_search_term_present[OF a b]) simp_all
  with a b show ?thesis by blast
qed

section \<open>The rates of the Keyword Summary\<close>

lemma sort_values_single: "sort_values before [x] ys \<longleftrightarrow> ys = [x]"
  by (auto simp: sort_values_def)

lemma group_keys_single: "group_keys by [r] = (if isna (by r) then [] else [by r])"
  by (simp add: group_keys_def)

text \<open>
  What lines 99 and 100 compute on finite totals. With a divisor that is not 0 both are
  the quotient. With a divisor 0, line 99 repairs only \<^verbatim>\<open>0 / 0\<close> and line 100 only a
  positive dividend: \<^verbatim>\<open>fillna\<close> does not touch an infinity, and \<^verbatim>\<open>replace\<close> of
  \<^verbatim>\<open>inf\<close> does not touch NaN.
\<close>

lemma CPC_nonzero_clicks:
  "total_cost g = Num c \<Longrightarrow> total_clicks g = Num k \<Longrightarrow> k \<noteq> 0 \<Longrightarrow>
     CPC (with_rates g) = Num (c / k)"
  by (simp add: with_rates_def replace_inf0_def)

lemma CPC_zero_clicks:
  "total_cost g = Num c \<Longrightarrow> total_clicks g = Num 0 \<Longrightarrow>
     CPC (with_rates g) = (if 0 < c then Num 0 else if c < 0 then NegInf else NaN)"
  by (simp add: with_rates_def replace_inf0_def)

lemma CTR_nonzero_impressions:
  "total_clicks g = Num k \<Longrightarrow> total_impressions g = Num i \<Longrightarrow> i \<noteq> 0 \<Longrightarrow>
     CTR (with_rates g) = Num (k / i)"
  by (simp add: with_rates_def fillna0_def)

lemma CTR_zero_impressions:
  "total_clicks g = Num k \<Longrightarrow> total_impressions g = Num 0 \<Longrightarrow>
     CTR (with_rates g) = (if 0 < k then PosInf else if k < 0 then NegInf else Num 0)"
  by (simp add: with_rates_def fillna0_def)

text \<open>
  Claim C1 says that CPC is 0 for every group with \<open>total_clicks = 0\<close>, also when
  \<open>total_cost\<close> is 0. The code does not do that: for a keyword whose only row has
  100 impressions, no click and no cost, line 100 computes \<^verbatim>\<open>0 / 0\<close>, which is NaN, and
  replaces only \<^verbatim>\<open>inf\<close>. The one frame that lines 88-100 can yield has CPC NaN.
\<close>

theorem C1_CPC_is_NaN_without_clicks_and_cost:
  "summary [\<lparr>search_term = Txt ''buy shoes'', keyword = Txt ''shoes'',
             impressions = Num 100, clicks = Num 0, cost = Num 0\<rparr>] out
   \<longleftrightarrow> out = [\<lparr>s_keyword = Txt ''shoes'', total_search_terms = 1,
               total_impressions = Num 100, total_clicks = Num 0, total_cost = Num 0,
               CTR = Num 0, CPC = NaN\<rparr>]"
  by (simp add: summary_def keyword_groups_def group_keys_single group_rows_def isna_def
      nunique_def fsum_def sort_values_single with_rates_def fillna0_def replace_inf0_def)

text \<open>
  Claim C2 says that CTR lies in \<open>[0, \<infinity>)\<close> and is 0 for every group with
  \<open>total_impressions = 0\<close>, also when \<open>total_clicks\<close> is positive. The code does not do
  that: for a keyword whose only row has 5 clicks and 0 impressions, line 99 computes
  \<^verbatim>\<open>5 / 0\<close>, which is \<^verbatim>\<open>inf\<close>, and fills only NaN. The one frame that lines 88-100
  can yield has CTR \<^verbatim>\<open>inf\<close>.
\<close>

theorem C2_CTR_is_inf_without_impressions:
  "summary [\<lparr>search_term = Txt ''buy shoes'', keyword = Txt ''shoes'',
             impressions = Num 0, clicks = Num 5, cost = Num (5 / 2)\<rparr>] out
   \<longleftrightarrow> out = [\<lparr>s_keyword = Txt ''shoes'', total_search_terms = 1,
               total_impressions = Num 0, total_clicks = Num 5, total_cost = Num (5 / 2),
               CTR = PosInf, CPC = Num (1 / 2)\<rparr>]"
  by (simp add: summary_def keyword_groups_def group_keys_single group_rows_def isna_def
      nunique_def fsum_def sort_values_single with_rates_def fillna0_def replace_inf0_def)

section \<open>Properties of Ingestion\<close>

lemma read_all_all_fail:
  "snd (read_all parse fs) = [] \<longleftrightarrow> (\<forall>f\<in>set fs. \<exists>e. read_result f = Inl e)"
  by (induction fs) (auto split: prod.splits sum.splits)

lemma read_all_notices:
  "fst (read_all parse fs) =
     concat (map (\<lambda>f. case read_result f of Inl e \<Rightarrow> [Read_error (file_name f) e] | Inr t \<Rightarrow> []) fs)"
  by (induction fs) (auto split: prod.splits sum.splits)

lemma read_all_frames:
  "snd (read_all parse fs) =
     concat (map (\<lambda>f. case read_result f of Inl e \<Rightarrow> []
                       | Inr t \<Rightarrow> [set_account (file_name f) (read_csv parse t)]) fs)"
  by (induction fs) (auto split: prod.splits sum.splits)

text \<open>
  The three ways out of lines 33-49: the prompt and \<^verbatim>\<open>st.stop()\<close> without files;
  the uncaught ValueError when no file could be read; otherwise the frame of the files
  that could be read, with one error notice per file that could not.
\<close>

lemma ingest_cases:
  "ingest parse fs =
     (if fs = [] then ([Upload_prompt], Inl Stop)
      else if \<forall>f\<in>set fs. \<exists>e. read_result f = Inl e
      then (fst (read_all parse fs), Inl (Raise ValueError))
      else (fst (read_all parse fs), Inr (concat_frames (snd (read_all parse fs)))))"
  using read_all_all_fail[of parse fs]
  by (cases "read_all parse fs") (auto simp: ingest_def)

lemma ingest_halts_iff:
  "(\<exists>h. snd (ingest parse fs) = Inl h) \<longleftrightarrow> fs = [] \<or> (\<forall>f\<in>set fs. \<exists>e. read_result f = Inl e)"
  by (auto simp: ingest_cases)

lemma ingest_prompt_iff: "Upload_prompt \<in> set (fst (ingest parse fs)) \<longleftrightarrow> fs = []"
  by (auto simp: ingest_cases read_all_notices split: sum.splits)

text \<open>
  Claim C5 says that Ingestion halts with a prompt to the user when no file was
  provided and also when no file could be read. In the second case the code does halt,
  but not with a prompt: after the error notice of line 47 for the one file,
  \<^verbatim>\<open>all_dfs\<close> is empty and \<^verbatim>\<open>pd.concat\<close> of line 49 raises a ValueError that nothing
  catches.
\<close>

theorem C5_all_files_failing_raises:
  "ingest parse [\<lparr>file_name = ''report.csv'', read_result = Inl ''No columns to parse from file''\<rparr>]
     = ([Read_error ''report.csv'' ''No columns to parse from file''], Inl (Raise ValueError))"
  by (simp add: ingest_def)

section \<open>Properties of the Coverage Analyzer\<close>

text \<open>
  Claim C6. Whenever the Coverage Analyzer builds its three sets, the uncovered terms
  and the keywords are disjoint, and the uncovered terms together with the covered ones
  are all the terms; the keywords are the cleaned keywords without the empty text, the
  terms are the cleaned search terms, and the uncovered terms are their difference.
\<close>

theorem C6_coverage_partition:
  assumes "coverage repr rows = Inr cs"
  shows "uncovered_terms cs \<inter> all_keywords cs = {}
       \<and> uncovered_terms cs \<union> (all_search_terms cs \<inter> all_keywords cs) = all_search_terms cs
       \<and> uncovered_terms cs = all_search_terms cs - all_keywords cs
       \<and> all_keywords cs = {Txt (clean_kw repr (keyword r)) |r. r \<in> set rows} - {Txt []}
       \<and> all_search_terms cs = {search_term_clean (search_term r) |r. r \<in> set rows}"
  using assms by (auto simp: coverage_def Let_def split: if_splits)

theorem C6_witness:
  "coverage (\<lambda>x. [])
     [\<lparr>search_term = Txt ''Buy Shoes '', keyword = Txt ''[shoes]'',
       impressions = Num 100, clicks = Num 10, cost = Num 5\<rparr>,
      \<lparr>search_term = Txt ''shoes'', keyword = Txt ''Running Shoes'',
       impressions = Num 20, clicks = Num 2, cost = Num 1\<rparr>,
      \<lparr>search_term = Txt ''cheap boots'', keyword = Flt NaN,
       impressions = Num 50, clicks = Num 0, cost = Num 0\<rparr>]
   = Inr \<lparr>all_keywords = {Txt ''shoes'', Txt ''running shoes''},
          all_search_terms = {Txt ''buy shoes'', Txt ''shoes'', Txt ''cheap boots''},
          uncovered_terms = {Txt ''buy shoes'', Txt ''cheap boots''}\<rparr>
   \<and> {Txt ''buy shoes'', Txt ''cheap boots''} \<inter> {Txt ''shoes'', Txt ''running shoes''} = {}
   \<and> {Txt ''buy shoes'', Txt ''cheap boots''}
       \<union> ({Txt ''buy shoes'', Txt ''shoes'', Txt ''cheap boots''} \<inter> {Txt ''shoes'', Txt ''running shoes''})
     = {Txt ''buy shoes'', Txt ''shoes'', Txt ''cheap boots''}"
  (is "?A \<and> ?B")
proof -
  have h: ?A by code_simp
  have ?B
    using C6_coverage_partition[OF h, THEN conjunct1]
      C6_coverage_partition[OF h, THEN conjunct2, THEN conjunct1]
    by simp
  with h show ?thesis by (rule conjI)
qed

section \<open>Properties of the Insight Requester\<close>


lemma request_insights_Success:
  "request_insights secret rep = Inr (Success v) \<longleftrightarrow>
     (\<exists>api_key result cs c m.
        secret = Inr api_key \<and> rep = Json result \<and>
        contains ''choices'' result = Inr True \<and>
        subscript result ''choices'' = Inr cs \<and> subscript0 cs = Inr c \<and>
        subscript c ''message'' = Inr m \<and> subscript m ''content'' = Inr v)"
  by (auto simp: request_insights_def split: sum.splits reply.splits bool.splits)

lemma subscript_Inr: "subscript j k = Inr v \<longleftrightarrow> (\<exists>kvs. j = JObj kvs \<and> map_of kvs k = Some v)"
  by (cases j) (auto split: option.splits)

lemma subscript0_obj: "subscript0 cs = Inr (JObj ckvs) \<longleftrightarrow> (\<exists>rest. cs = JArr (JObj ckvs # rest))"
  by (cases cs rule: subscript0.cases) auto

lemma map_of_Some_key: "map_of kvs k = Some v \<Longrightarrow> k \<in> fst ` set kvs"
  by (metis map_of_eq_None_iff option.distinct(1))

lemma request_insights_shapes:
  "(\<exists>v. request_insights secret rep = Inr (Success v))
   \<or> (\<exists>result. rep = Json result \<and> request_insights secret rep = Inr (Response_error result))
   \<or> (\<exists>e. request_insights secret rep = Inl e)"
  by (auto simp: request_insights_def split: sum.splits reply.splits bool.splits)

text \<open>
  Claim C7. The handler shows the content of the message of the first element of the
  \<^verbatim>\<open>choices\<close> array, and it does so exactly when the secret was found, the request
  returned, the body decoded to an object, and that object has this shape. A request
  that raises, a body that does not decode and a secret that is missing are shown as
  "AI request failed" with the exception; a decoded object without a \<^verbatim>\<open>choices\<close> key
  is shown as "AI response error" with the object itself. The handler always shows one
  of the three, whatever it meets: no exception leaves it.
\<close>

theorem C7_insight_requester:
  "(generate_insights secret rep = Success content \<longleftrightarrow>
      (\<exists>api_key kvs ckvs rest mkvs.
         secret = Inr api_key \<and> rep = Json (JObj kvs) \<and>
         map_of kvs ''choices'' = Some (JArr (JObj ckvs # rest)) \<and>
         map_of ckvs ''message'' = Some (JObj mkvs) \<and>
         map_of mkvs ''content'' = Some content))
   \<and> generate_insights (Inr api_key) (Post_raises e) = Request_failed e
   \<and> generate_insights (Inr api_key) (Json_raises e) = Request_failed e
   \<and> generate_insights (Inl e) rep = Request_failed e
   \<and> (''choices'' \<notin> fst ` set kvs \<longrightarrow>
        generate_insights (Inr api_key) (Json (JObj kvs)) = Response_error (JObj kvs))
   \<and> ((\<exists>v. generate_insights secret rep = Success v)
      \<or> (\<exists>result. rep = Json result \<and> generate_insights secret rep = Response_error result)
      \<or> (\<exists>e. generate_insights secret rep = Request_failed e))"
proof (intro conjI)
  have "generate_insights secret rep = Success content
        \<longleftrightarrow> request_insights secret rep = Inr (Success content)"
    by (auto simp: generate_insights_def split: sum.splits)
  also have "\<dots> \<longleftrightarrow> (\<exists>api_key kvs ckvs rest mkvs.
         secret = Inr api_key \<and> rep = Json (JObj kvs) \<and>
         map_of kvs ''choices'' = Some (JArr (JObj ckvs # rest)) \<and>
         map_of ckvs ''message'' = Some (JObj mkvs) \<and>
         map_of mkvs ''content'' = Some content)"
    unfolding request_insights_Success subscript_Inr
    by (auto simp: subscript0_obj dest: map_of_Some_key)
  finally show "generate_insights secret rep = Success content \<longleftrightarrow>
      (\<exists>api_key kvs ckvs rest mkvs.
         secret = Inr api_key \<and> rep = Json (JObj kvs) \<and>
         map_of kvs ''choices'' = Some (JArr (JObj ckvs # rest)) \<and>
         map_of ckvs ''message'' = Some (JObj mkvs) \<and>
         map_of mkvs ''content'' = Some content)" .
next
  show "generate_insights (Inr api_key) (Post_raises e) = Request_failed e"
    by (simp add: generate_insights_def request_insights_def)
next
  show "generate_insights (Inr api_key) (Json_raises e) = Request_failed e"
    by (simp add: generate_insights_def request_insights_def)
next
  show "generate_insights (Inl e) rep = Request_failed e"
    by (simp add: generate_insights_def request_insights_def)
next
  show "''choices'' \<notin> fst ` set kvs \<longrightarrow>
        generate_insights (Inr api_key) (Json (JObj kvs)) = Response_error (JObj kvs)"
    by (simp add: generate_insights_def request_insights_def)
next
  show "(\<exists>v. generate_insights secret rep = Success v)
      \<or> (\<exists>result. rep = Json result \<and> generate_insights secret rep = Response_error result)
      \<or> (\<exists>e. generate_insights secret rep = Request_failed e)"
    using request_insights_shapes[of secret rep]
    by (auto simp: generate_insights_def)
qed

theorem C7_witness:
  "generate_insights (Inr ''k'')
      (Json (JObj [(''id'', JStr ''gen-1''),
                   (''choices'', JArr [JObj [(''message'',
                        JObj [(''role'', JStr ''assistant''),
                              (''content'', JStr ''Add boots as a keyword.'')])]])]))
     = Success (JStr ''Add boots as a keyword.'')
   \<and> generate_insights (Inr ''k'') (Post_raises (Failure ''Connection refused''))
     = Request_failed (Failure ''Connection refused'')
   \<and> generate_insights (Inr ''k'') (Json_raises (Failure ''Expecting value''))
     = Request_failed (Failure ''Expecting value'')
   \<and> generate_insights (Inl (KeyError ''api_key'')) (Post_raises (Failure ''Connection refused''))
     = Request_failed (KeyError ''api_key'')
   \<and> generate_insights (Inr ''k'') (Json (JObj [(''error'', JObj [(''code'', JNum 429)])]))
     = Response_error (JObj [(''error'', JObj [(''code'', JNum 429)])])"
  (is "?A \<and> ?B \<and> ?C \<and> ?D \<and> ?E")
proof -
  have a: ?A
    using C7_insight_requester[THEN conjunct1,
        of "Inr ''k''"
           "Json (JObj [(''id'', JStr ''gen-1''),
                   (''choices'', JArr [JObj [(''message'',
                        JObj [(''role'', JStr ''assistant''),
                              (''content'', JStr ''Add boots as a keyword.'')])]])])"
           "JStr ''Add boots as a keyword.''"]
    by simp
  have b: ?B
    by (rule C7_insight_requester[THEN conjunct2, THEN conjunct1])
  have c: ?C
    by (rule C7_insight_requester[THEN conjunct2, THEN conjunct2, THEN conjunct1])
  have d: ?D
    by (rule C7_insight_requester[THEN conjunct2, THEN conjunct2, THEN conjunct2, THEN conjunct1])
  have e: ?E
    using C7_insight_requester[THEN conjunct2, THEN conjunct2, THEN conjunct2, THEN conjunct2,
        THEN conjunct1, of "[(''error'', JObj [(''code'', JNum 429)])]" "''k''"]
    by simp
  from a b c d e show ?thesis by blast
qed


section \<open>Properties of sorting and grouping\<close>

lemma sort_values_set: "sort_values before xs ys \<Longrightarrow> set ys = set xs"
  by (auto simp: sort_values_def dest: mset_eq_setD)

lemma sort_values_length: "sort_values before xs ys \<Longrightarrow> length ys = length xs"
  by (auto simp: sort_values_def dest: mset_eq_length)

lemma sort_values_sorted: "sort_values before xs ys \<Longrightarrow> sorted_wrt before ys"
  by (simp add: sort_values_def)

lemma sort_values_distinct_map:
  assumes "sort_values before xs ys" and "distinct (map f xs)"
  shows "distinct (map f ys)"
proof -
  from assms(1) have "mset (map f ys) = mset (map f xs)" by (simp add: sort_values_def)
  then show ?thesis using assms(2) by (metis mset_eq_imp_distinct_iff)
qed

lemma desc_f64_refl: "desc_f64 x x"
  by (cases x) (simp_all add: desc_f64_def)

lemma desc_f64_total: "desc_f64 x y \<or> desc_f64 y x"
  by (cases x; cases y) (auto simp: desc_f64_def)

lemma desc_f64_trans: "desc_f64 x y \<Longrightarrow> desc_f64 y z \<Longrightarrow> desc_f64 x z"
  by (cases x; cases y; cases z) (auto simp: desc_f64_def)

lemma set_group_keys: "set (group_keys by rows) = by ` set rows - {Flt NaN}"
  by (auto simp: group_keys_def isna_def)

lemma distinct_group_keys: "distinct (group_keys by rows)"
  by (simp add: group_keys_def)

lemma length_group_keys: "length (group_keys by rows) = card (by ` set rows - {Flt NaN})"
  using distinct_card[OF distinct_group_keys, of "by" rows] by (simp add: set_group_keys)

subsection \<open>Top Terms\<close>

lemma keys_term_groups: "map t_search_term (term_groups rows) = group_keys search_term rows"
  by (simp add: term_groups_def Let_def comp_def)

lemma term_groups_member:
  "g \<in> set (term_groups rows) \<longleftrightarrow>
     t_search_term g \<in> search_term ` set rows - {Flt NaN} \<and>
     g = \<lparr>t_search_term = t_search_term g,
          t_clicks = fsum (map clicks (filter (\<lambda>r. search_term r = t_search_term g) rows)),
          t_impressions = fsum (map impressions (filter (\<lambda>r. search_term r = t_search_term g) rows))\<rparr>"
  unfolding term_groups_def Let_def group_rows_def set_map set_group_keys[symmetric]
  by auto

text \<open>
  What the Top Terms view holds whatever order the sort of line 133 gives to groups
  with equal clicks: the view has the first 15 groups (all of them when there are
  fewer), ordered by clicks, highest first; every group shown is the group of a search
  term of the dataset with the sums of its rows, no search term is shown twice, and a
  group that is not shown has no more clicks than any group shown.
\<close>

lemma top_terms_view:
  assumes "top_terms rows out"
  shows "length out = min 15 (card (search_term ` set rows - {Flt NaN}))
       \<and> sorted_wrt (\<lambda>a b. desc_f64 (t_clicks a) (t_clicks b)) out
       \<and> distinct (map t_search_term out)
       \<and> (\<forall>g\<in>set out.
            t_search_term g \<in> search_term ` set rows - {Flt NaN}
          \<and> t_clicks g = fsum (map clicks (filter (\<lambda>r. search_term r = t_search_term g) rows))
          \<and> t_impressions g =
              fsum (map impressions (filter (\<lambda>r. search_term r = t_search_term g) rows)))
       \<and> (\<forall>k\<in>search_term ` set rows - {Flt NaN}.
            k \<notin> t_search_term ` set out \<longrightarrow>
            (\<forall>g\<in>set out.
               desc_f64 (t_clicks g) (fsum (map clicks (filter (\<lambda>r. search_term r = k) rows)))))"
proof -
  let ?before = "\<lambda>a b. desc_f64 (t_clicks a) (t_clicks b)"
  from assms obtain s where s: "sort_values ?before (term_groups rows) s" and out: "out = take 15 s"
    by (auto simp: top_terms_def)
  have set_s: "set s = set (term_groups rows)" using s by (rule sort_values_set)
  have "length s = length (group_keys search_term rows)"
    using sort_values_length[OF s] by (simp add: term_groups_def)
  then have 1: "length out = min 15 (card (search_term ` set rows - {Flt NaN}))"
    by (simp add: out length_group_keys min.commute)
  have sorted_s: "sorted_wrt ?before s" using s by (rule sort_values_sorted)
  then have 2: "sorted_wrt ?before out" unfolding out by (rule sorted_wrt_take)
  have "distinct (map t_search_term s)"
    using s by (rule sort_values_distinct_map) (simp add: keys_term_groups distinct_group_keys)
  then have 3: "distinct (map t_search_term out)"
    unfolding out take_map[symmetric] by (rule distinct_take)
  have sub: "set out \<subseteq> set (term_groups rows)"
    unfolding out using set_take_subset[of 15 s] by (simp add: set_s)
  have 4: "\<forall>g\<in>set out.
            t_search_term g \<in> search_term ` set rows - {Flt NaN}
          \<and> t_clicks g = fsum (map clicks (filter (\<lambda>r. search_term r = t_search_term g) rows))
          \<and> t_impressions g =
              fsum (map impressions (filter (\<lambda>r. search_term r = t_search_term g) rows))"
  proof
    fix g assume "g \<in> set out"
    with sub have "g \<in> set (term_groups rows)" by blast
    then show "t_search_term g \<in> search_term ` set rows - {Flt NaN}
          \<and> t_clicks g = fsum (map clicks (filter (\<lambda>r. search_term r = t_search_term g) rows))
          \<and> t_impressions g =
              fsum (map impressions (filter (\<lambda>r. search_term r = t_search_term g) rows))"
      unfolding term_groups_member by (metis term_row.select_convs(2,3))
  qed
  have 5: "\<forall>k\<in>search_term ` set rows - {Flt NaN}.
            k \<notin> t_search_term ` set out \<longrightarrow>
            (\<forall>g\<in>set out.
               desc_f64 (t_clicks g) (fsum (map clicks (filter (\<lambda>r. search_term r = k) rows))))"
  proof (intro ballI impI)
    fix k g
    assume k: "k \<in> search_term ` set rows - {Flt NaN}"
      and unseen: "k \<notin> t_search_term ` set out" and g: "g \<in> set out"
    define h where "h = \<lparr>t_search_term = k,
          t_clicks = fsum (map clicks (filter (\<lambda>r. search_term r = k) rows)),
          t_impressions = fsum (map impressions (filter (\<lambda>r. search_term r = k) rows))\<rparr>"
    have "h \<in> set (term_groups rows)" unfolding term_groups_member using k by (simp add: h_def)
    then have "h \<in> set s" by (simp add: set_s)
    moreover have "h \<notin> set (take 15 s)" using unseen by (auto simp: out h_def image_iff)
    ultimately have "h \<in> set (drop 15 s)"
      by (metis Un_iff append_take_drop_id set_append)
    moreover have "sorted_wrt ?before (take 15 s @ drop 15 s)" using sorted_s by simp
    ultimately have "?before g h"
      using g unfolding out sorted_wrt_append by blast
    then show "desc_f64 (t_clicks g) (fsum (map clicks (filter (\<lambda>r. search_term r = k) rows)))"
      by (simp add: h_def)
  qed
  from 1 2 3 4 5 show ?thesis by blast
qed


subsection \<open>The stable reading is one of the results\<close>

lemma mset_insert_desc: "mset (insert_desc key x xs) = add_mset x (mset xs)"
  by (induction xs) auto

lemma set_insert_desc: "set (insert_desc key x xs) = insert x (set xs)"
  using mset_insert_desc[of key x xs, THEN arg_cong, of set_mset] by simp

lemma sorted_insert_desc:
  "sorted_wrt (\<lambda>a b. desc_f64 (key a) (key b)) xs \<Longrightarrow>
   sorted_wrt (\<lambda>a b. desc_f64 (key a) (key b)) (insert_desc key x xs)"
proof (induction xs)
  case Nil
  then show ?case by simp
next
  case (Cons y ys)
  show ?case
  proof (cases "desc_f64 (key x) (key y)")
    case True
    with Cons.prems show ?thesis by (auto intro: desc_f64_trans)
  next
    case False
    then have "desc_f64 (key y) (key x)" using desc_f64_total by blast
    with False Cons show ?thesis by (auto simp: set_insert_desc)
  qed
qed

lemma sort_values_stable_sort_desc:
  "sort_values (\<lambda>a b. desc_f64 (key a) (key b)) xs (stable_sort_desc key xs)"
  unfolding sort_values_def stable_sort_desc_def
  by (induction xs) (auto simp: mset_insert_desc sorted_insert_desc)

lemma top_terms_stable_possible: "top_terms rows (top_terms_stable rows)"
  unfolding top_terms_def top_terms_stable_def
  using sort_values_stable_sort_desc by blast

lemma mapping_possible: "mapping rows (stable_sort_desc clicks rows)"
  unfolding mapping_def by (rule sort_values_stable_sort_desc)


lemma top_termsI:
  "sort_values (\<lambda>a b. desc_f64 (t_clicks a) (t_clicks b)) (term_groups rows) s \<Longrightarrow>
   top_terms rows (take 15 s)"
  by (auto simp: top_terms_def)


section \<open>Rows without a keyword\<close>

lemma fadd_zero: "fadd (Num 0) x = x"
  by (cases x) simp_all

lemma fadd_commute: "fadd x y = fadd y x"
  by (cases x; cases y) simp_all

lemma fadd_assoc: "fadd (fadd x y) z = fadd x (fadd y z)"
  by (cases x; cases y; cases z) simp_all

lemma fadd_left_commute: "fadd x (fadd y z) = fadd y (fadd x z)"
  by (cases x; cases y; cases z) simp_all

lemma foldl_fadd: "foldl fadd a xs = fadd a (foldl fadd (Num 0) xs)"
proof (induction xs arbitrary: a)
  case Nil
  show ?case by (simp add: fadd_commute[of a] fadd_zero)
next
  case (Cons x xs)
  have "foldl fadd a (x # xs) = fadd (fadd a x) (foldl fadd (Num 0) xs)"
    using Cons.IH[of "fadd a x"] by simp
  also have "\<dots> = fadd a (fadd x (foldl fadd (Num 0) xs))" by (rule fadd_assoc)
  also have "fadd x (foldl fadd (Num 0) xs) = foldl fadd (Num 0) (x # xs)"
    using Cons.IH[of x] by (simp add: fadd_zero)
  finally show ?case .
qed

lemma fsum_Cons: "fsum (x # xs) = (if x = NaN then fsum xs else fadd x (fsum xs))"
  using foldl_fadd[of x] by (simp add: fsum_def fadd_zero)

lemma fsum_map_remove1:
  "r \<in> set g \<Longrightarrow> f r \<noteq> NaN \<Longrightarrow> fsum (map f g) = fadd (f r) (fsum (map f (remove1 r g)))"
proof (induction g)
  case Nil
  then show ?case by simp
next
  case (Cons y g)
  show ?case
  proof (cases "y = r")
    case True
    with Cons.prems show ?thesis by (simp add: fsum_Cons)
  next
    case False
    with Cons have "fsum (map f g) = fadd (f r) (fsum (map f (remove1 r g)))" by simp
    with False show ?thesis by (simp add: fsum_Cons fadd_left_commute)
  qed
qed

lemma group_keys_without_null:
  "group_keys by (filter (\<lambda>r. \<not> isna (by r)) rows) = group_keys by rows"
  by (simp add: group_keys_def filter_map comp_def)

lemma group_rows_without_null:
  "\<not> isna k \<Longrightarrow> group_rows by k (filter (\<lambda>r. \<not> isna (by r)) rows) = group_rows by k rows"
  by (auto simp: group_rows_def intro: filter_cong)

lemma keyword_groups_without_null:
  "keyword_groups (filter (\<lambda>r. \<not> isna (keyword r)) rows) = keyword_groups rows"
  unfolding keyword_groups_def group_keys_without_null
  by (rule map_cong) (auto simp: set_group_keys isna_def group_rows_without_null[unfolded isna_def])

lemma keys_keyword_groups: "map s_keyword (keyword_groups rows) = group_keys keyword rows"
  by (simp add: keyword_groups_def Let_def comp_def)

lemma summary_keywords:
  assumes "summary rows out"
  shows "s_keyword ` set out = keyword ` set rows - {Flt NaN}"
proof -
  from assms obtain s where
    s: "sort_values (\<lambda>a b. total_search_terms b \<le> total_search_terms a) (keyword_groups rows) s"
    and out: "out = map with_rates s"
    by (auto simp: summary_def)
  have "s_keyword ` set out = s_keyword ` set s"
    by (auto simp: out with_rates_def image_iff)
  also have "\<dots> = set (map s_keyword (keyword_groups rows))"
    using sort_values_set[OF s] by simp
  finally show ?thesis by (simp add: keys_keyword_groups set_group_keys)
qed

text \<open>The summary block always has a result: the groups can be put in the order asked for.\<close>

lemma summary_possible: "\<exists>out. summary rows out"
proof -
  let ?key = "\<lambda>g :: agg_row. - int (total_search_terms g)"
  let ?s = "sort_key ?key (keyword_groups rows)"
  have "sorted (map ?key ?s)" by (rule sorted_sort_key)
  then have "sorted_wrt (\<lambda>a b. total_search_terms b \<le> total_search_terms a) ?s"
    by (simp add: sorted_map)
  then have "sort_values (\<lambda>a b. total_search_terms b \<le> total_search_terms a)
               (keyword_groups rows) ?s"
    by (simp add: sort_values_def)
  then show ?thesis unfolding summary_def by blast
qed

lemma top_terms_cases:
  assumes "top_terms rows out" and "g \<in> set (term_groups rows)"
  shows "g \<in> set out \<or> (length out = 15 \<and> (\<forall>h\<in>set out. desc_f64 (t_clicks h) (t_clicks g)))"
proof (cases "g \<in> set out")
  case True
  then show ?thesis by simp
next
  case False
  let ?before = "\<lambda>a b. desc_f64 (t_clicks a) (t_clicks b)"
  from assms(1) obtain s where s: "sort_values ?before (term_groups rows) s" and out: "out = take 15 s"
    by (auto simp: top_terms_def)
  have "g \<in> set s" using assms(2) sort_values_set[OF s] by simp
  with False have d: "g \<in> set (drop 15 s)"
    unfolding out by (metis Un_iff append_take_drop_id set_append)
  then have "15 < length s" by (cases "15 < length s") auto
  then have len: "length out = 15" by (simp add: out)
  have "sorted_wrt ?before (take 15 s @ drop 15 s)" using sort_values_sorted[OF s] by simp
  with d have "\<forall>h\<in>set out. ?before h g" unfolding out sorted_wrt_append by blast
  with len show ?thesis by simp
qed

lemma term_groups_ignore_cost:
  "term_groups (map (\<lambda>x. x\<lparr>cost := c x\<rparr>) rows) = term_groups rows"
  by (simp add: term_groups_def group_keys_def group_rows_def filter_map comp_def Let_def)

text \<open>
  Claim C10, as amended. A row of the filtered dataset whose keyword is null makes no
  difference to the Keyword Summary: the grouping is the one of the dataset without such
  rows, and no row of the summary has a null keyword. The row still counts in the Top
  Terms aggregation: its search term has a group, and the clicks and impressions of that
  group are the row's own added to those of the other rows of the group. Costs play no
  part in it: Top Terms has no cost column, and is the same whatever the costs are. That group is in the view unless the view is full with 15 groups that
  the sort placed before it. The row itself, with its cost, is in the Mapping view.
\<close>

theorem C10_rows_without_keyword:
  assumes "r \<in> set rows" and "isna (keyword r)"
  shows "keyword_groups rows = keyword_groups (filter (\<lambda>r. \<not> isna (keyword r)) rows)
       \<and> (\<forall>out. summary rows out \<longrightarrow> keyword r \<notin> s_keyword ` set out)
       \<and> (\<not> isna (search_term r) \<longrightarrow>
            (\<exists>g\<in>set (term_groups rows).
               t_search_term g = search_term r
             \<and> (clicks r \<noteq> NaN \<longrightarrow>
                  t_clicks g = fadd (clicks r)
                    (fsum (map clicks (remove1 r (group_rows search_term (search_term r) rows)))))
             \<and> (impressions r \<noteq> NaN \<longrightarrow>
                  t_impressions g = fadd (impressions r)
                    (fsum (map impressions (remove1 r (group_rows search_term (search_term r) rows)))))
             \<and> (\<forall>out. top_terms rows out \<longrightarrow>
                  g \<in> set out \<or>
                  (length out = 15 \<and> (\<forall>h\<in>set out. desc_f64 (t_clicks h) (t_clicks g))))))
       \<and> term_groups (map (\<lambda>x. x\<lparr>cost := c x\<rparr>) rows) = term_groups rows
       \<and> (\<forall>out. mapping rows out \<longrightarrow> r \<in> set out)"
proof (intro conjI)
  show "keyword_groups rows = keyword_groups (filter (\<lambda>r. \<not> isna (keyword r)) rows)"
    by (simp add: keyword_groups_without_null)
next
  show "\<forall>out. summary rows out \<longrightarrow> keyword r \<notin> s_keyword ` set out"
    using assms(2) by (auto simp: summary_keywords isna_def)
next
  show "\<not> isna (search_term r) \<longrightarrow>
            (\<exists>g\<in>set (term_groups rows).
               t_search_term g = search_term r
             \<and> (clicks r \<noteq> NaN \<longrightarrow>
                  t_clicks g = fadd (clicks r)
                    (fsum (map clicks (remove1 r (group_rows search_term (search_term r) rows)))))
             \<and> (impressions r \<noteq> NaN \<longrightarrow>
                  t_impressions g = fadd (impressions r)
                    (fsum (map impressions (remove1 r (group_rows search_term (search_term r) rows)))))
             \<and> (\<forall>out. top_terms rows out \<longrightarrow>
                  g \<in> set out \<or>
                  (length out = 15 \<and> (\<forall>h\<in>set out. desc_f64 (t_clicks h) (t_clicks g)))))"
  proof
    assume st: "\<not> isna (search_term r)"
    let ?grp = "group_rows search_term (search_term r) rows"
    define g where "g = \<lparr>t_search_term = search_term r,
          t_clicks = fsum (map clicks ?grp), t_impressions = fsum (map impressions ?grp)\<rparr>"
    have mem: "g \<in> set (term_groups rows)"
      unfolding term_groups_member using assms(1) st by (auto simp: g_def isna_def group_rows_def)
    have r: "r \<in> set ?grp" using assms(1) by (simp add: group_rows_def)
    have "t_search_term g = search_term r" by (simp add: g_def)
    moreover have "clicks r \<noteq> NaN \<longrightarrow>
        t_clicks g = fadd (clicks r) (fsum (map clicks (remove1 r ?grp)))"
      using fsum_map_remove1[OF r, of clicks] by (simp add: g_def)
    moreover have "impressions r \<noteq> NaN \<longrightarrow>
        t_impressions g = fadd (impressions r) (fsum (map impressions (remove1 r ?grp)))"
      using fsum_map_remove1[OF r, of impressions] by (simp add: g_def)
    moreover have "\<forall>out. top_terms rows out \<longrightarrow>
                  g \<in> set out \<or>
                  (length out = 15 \<and> (\<forall>h\<in>set out. desc_f64 (t_clicks h) (t_clicks g)))"
      using top_terms_cases[OF _ mem] by blast
    ultimately show "\<exists>g\<in>set (term_groups rows).
               t_search_term g = search_term r
             \<and> (clicks r \<noteq> NaN \<longrightarrow>
                  t_clicks g = fadd (clicks r) (fsum (map clicks (remove1 r ?grp))))
             \<and> (impressions r \<noteq> NaN \<longrightarrow>
                  t_impressions g = fadd (impressions r) (fsum (map impressions (remove1 r ?grp))))
             \<and> (\<forall>out. top_terms rows out \<longrightarrow>
                  g \<in> set out \<or>
                  (length out = 15 \<and> (\<forall>h\<in>set out. desc_f64 (t_clicks h) (t_clicks g))))"
      using mem by blast
  qed
next
  show "term_groups (map (\<lambda>x. x\<lparr>cost := c x\<rparr>) rows) = term_groups rows"
    by (rule term_groups_ignore_cost)
next
  show "\<forall>out. mapping rows out \<longrightarrow> r \<in> set out"
    using assms(1) by (auto simp: mapping_def dest: sort_values_set)
qed


lemma top_terms_subset: "top_terms rows out \<Longrightarrow> set out \<subseteq> set (term_groups rows)"
  using set_take_subset by (fastforce simp: top_terms_def dest: sort_values_set)

lemma top_terms_left_out:
  assumes "top_terms rows out"
    and "distinct hs" and "length hs = 15" and "set hs \<subseteq> set (term_groups rows)"
    and "\<forall>h\<in>set hs. \<not> desc_f64 (t_clicks g) (t_clicks h)"
  shows "g \<notin> set out"
proof
  assume "g \<in> set out"
  let ?before = "\<lambda>a b. desc_f64 (t_clicks a) (t_clicks b)"
  from assms(1) obtain s where s: "sort_values ?before (term_groups rows) s" and out: "out = take 15 s"
    by (auto simp: top_terms_def)
  from \<open>g \<in> set out\<close> obtain i where i: "i < 15" "i < length s" "s ! i = g"
    unfolding out by (auto simp: in_set_conv_nth)
  have sorted_s: "sorted_wrt ?before s" using s by (rule sort_values_sorted)
  have "set hs \<subseteq> set (take i s)"
  proof
    fix h assume h: "h \<in> set hs"
    with assms(4) have "h \<in> set s" using sort_values_set[OF s] by blast
    then obtain j where j: "j < length s" "s ! j = h" by (auto simp: in_set_conv_nth)
    from h assms(5) have no: "\<not> ?before g h" by blast
    have "j < i"
    proof (rule ccontr)
      assume "\<not> j < i"
      then consider "j = i" | "i < j" by linarith
      then show False
      proof cases
        case 1
        with i j no show False by (simp add: desc_f64_refl)
      next
        case 2
        from sorted_wrt_nth_less[OF sorted_s 2 j(1)] i j no show False by simp
      qed
    qed
    with j i(2) show "h \<in> set (take i s)" by (auto simp: in_set_conv_nth)
  qed
  then have "card (set hs) \<le> card (set (take i s))" by (simp add: card_mono)
  also have "\<dots> \<le> length (take i s)" by (rule card_length)
  also have "\<dots> \<le> i" by simp
  finally have "card (set hs) < 15" using i(1) by simp
  with assms(2,3) show False by (simp add: distinct_card)
qed

text \<open>
  The claim as stated says that such a row still contributes to the Top Terms view.
  That fails where line 134 cuts the view: below, fifteen search terms have two clicks
  each, and the one row without a keyword has one click. The view may be the fifteen
  groups a to o, and in no result of the lines is there a group for the term z.
\<close>

theorem C10_counterexample:
  "top_terms
     (map (\<lambda>s. \<lparr>search_term = Txt s, keyword = Txt ''shoes'',
                impressions = Num 10, clicks = Num 2, cost = Num 1\<rparr>)
          [''a'', ''b'', ''c'', ''d'', ''e'', ''f'', ''g'', ''h'', ''i'',
           ''j'', ''k'', ''l'', ''m'', ''n'', ''o'']
      @ [\<lparr>search_term = Txt ''z'', keyword = Flt NaN,
          impressions = Num 5, clicks = Num 1, cost = Num (1 / 2)\<rparr>])
     (map (\<lambda>s. \<lparr>t_search_term = Txt s, t_clicks = Num 2, t_impressions = Num 10\<rparr>)
          [''a'', ''b'', ''c'', ''d'', ''e'', ''f'', ''g'', ''h'', ''i'',
           ''j'', ''k'', ''l'', ''m'', ''n'', ''o''])
   \<and> \<not> (\<exists>out. top_terms
     (map (\<lambda>s. \<lparr>search_term = Txt s, keyword = Txt ''shoes'',
                impressions = Num 10, clicks = Num 2, cost = Num 1\<rparr>)
          [''a'', ''b'', ''c'', ''d'', ''e'', ''f'', ''g'', ''h'', ''i'',
           ''j'', ''k'', ''l'', ''m'', ''n'', ''o'']
      @ [\<lparr>search_term = Txt ''z'', keyword = Flt NaN,
          impressions = Num 5, clicks = Num 1, cost = Num (1 / 2)\<rparr>]) out
       \<and> Txt ''z'' \<in> t_search_term ` set out)"
  (is "top_terms ?rows ?shown \<and> \<not> (\<exists>out. top_terms ?rows out \<and> ?z \<in> t_search_term ` set out)")
proof
  let ?last = "\<lparr>t_search_term = Txt ''z'', t_clicks = Num 1, t_impressions = Num 5\<rparr>"
  have g: "term_groups ?rows = ?shown @ [?last]"
    by code_simp
  have "sort_values (\<lambda>a b. desc_f64 (t_clicks a) (t_clicks b)) (term_groups ?rows) (?shown @ [?last])"
    unfolding g sort_values_def by (simp add: desc_f64_def)
  from top_termsI[OF this] show "top_terms ?rows ?shown" by simp
  show "\<not> (\<exists>out. top_terms ?rows out \<and> ?z \<in> t_search_term ` set out)"
  proof
    assume "\<exists>out. top_terms ?rows out \<and> ?z \<in> t_search_term ` set out"
    then obtain out g' where out: "top_terms ?rows out" and g': "g' \<in> set out" "t_search_term g' = ?z"
      by auto
    from top_terms_subset[OF out] g'(1) have "g' \<in> set (?shown @ [?last])" unfolding g by blast
    with g'(2) have "g' = ?last" by auto
    moreover have "?last \<notin> set out"
    proof (rule top_terms_left_out[OF out])
      show "distinct ?shown" by simp
      show "length ?shown = 15" by simp
      show "set ?shown \<subseteq> set (term_groups ?rows)" unfolding g by simp
      show "\<forall>h\<in>set ?shown. \<not> desc_f64 (t_clicks ?last) (t_clicks h)"
        by (simp add: desc_f64_def)
    qed
    ultimately show False using g'(1) by simp
  qed
qed

theorem C10_witness:
  "keyword_groups
     [\<lparr>search_term = Txt ''buy shoes'', keyword = Txt ''[shoes]'',
       impressions = Num 100, clicks = Num 10, cost = Num 5\<rparr>,
      \<lparr>search_term = Txt ''cheap boots'', keyword = Flt NaN,
       impressions = Num 50, clicks = Num 3, cost = Num 2\<rparr>]
   = keyword_groups (filter (\<lambda>r. \<not> isna (keyword r))
     [\<lparr>search_term = Txt ''buy shoes'', keyword = Txt ''[shoes]'',
       impressions = Num 100, clicks = Num 10, cost = Num 5\<rparr>,
      \<lparr>search_term = Txt ''cheap boots'', keyword = Flt NaN,
       impressions = Num 50, clicks = Num 3, cost = Num 2\<rparr>])
   \<and> (\<exists>g\<in>set (term_groups
     [\<lparr>search_term = Txt ''buy shoes'', keyword = Txt ''[shoes]'',
       impressions = Num 100, clicks = Num 10, cost = Num 5\<rparr>,
      \<lparr>search_term = Txt ''cheap boots'', keyword = Flt NaN,
       impressions = Num 50, clicks = Num 3, cost = Num 2\<rparr>]).
        t_search_term g = Txt ''cheap boots'' \<and> t_clicks g = Num 3 \<and> t_impressions g = Num 50)
   \<and> mapping
     [\<lparr>search_term = Txt ''buy shoes'', keyword = Txt ''[shoes]'',
       impressions = Num 100, clicks = Num 10, cost = Num 5\<rparr>,
      \<lparr>search_term = Txt ''cheap boots'', keyword = Flt NaN,
       impressions = Num 50, clicks = Num 3, cost = Num 2\<rparr>]
     [\<lparr>search_term = Txt ''buy shoes'', keyword = Txt ''[shoes]'',
       impressions = Num 100, clicks = Num 10, cost = Num 5\<rparr>,
      \<lparr>search_term = Txt ''cheap boots'', keyword = Flt NaN,
       impressions = Num 50, clicks = Num 3, cost = Num 2\<rparr>]
   \<and> \<lparr>search_term = Txt ''cheap boots'', keyword = Flt NaN,
       impressions = Num 50, clicks = Num 3, cost = Num 2\<rparr>
     \<in> set [\<lparr>search_term = Txt ''buy shoes'', keyword = Txt ''[shoes]'',
       impressions = Num 100, clicks = Num 10, cost = Num 5\<rparr>,
      \<lparr>search_term = Txt ''cheap boots'', keyword = Flt NaN,
       impressions = Num 50, clicks = Num 3, cost = Num 2\<rparr>]"
  (is "keyword_groups ?rows = keyword_groups (filter ?kw ?rows) \<and> ?B \<and> mapping ?rows ?m \<and> ?r \<in> set ?m")
proof -
  have r: "?r \<in> set ?rows" by simp
  have k: "isna (keyword ?r)" by (simp add: isna_def)
  note t = C10_rows_without_keyword[OF r k]
  have a: "keyword_groups ?rows = keyword_groups (filter ?kw ?rows)" by (rule t[THEN conjunct1])
  have m: "mapping ?rows ?m" by (simp add: mapping_def sort_values_def desc_f64_def)
  have d: "?r \<in> set ?m"
    using t[THEN conjunct2, THEN conjunct2, THEN conjunct2, THEN conjunct2] m by blast
  have b: ?B
    using t[THEN conjunct2, THEN conjunct2, THEN conjunct1]
    by (auto simp: isna_def group_rows_def fsum_def)
  from a b m d show ?thesis by blast
qed

end
